theory Spec2Isabelle
  imports Main "HOL-Library.Word" "HOL-Library.Sublist"
begin

unbundle bit_operations_syntax

section \<open>The receiver of recv-sdr.go\<close>

text \<open>
  The development follows \<^verbatim>\<open>recv-sdr.go\<close>: \<^verbatim>\<open>Receiver.NewReceiver\<close>,
  \<^verbatim>\<open>Receiver.Run\<close> and \<^verbatim>\<open>main\<close>. Everything the functions reach outside themselves
  is explicit: the package variables they mutate are fields of a state record, the
  answers of the operating system, the device and the decoder are inputs, and
  \<^verbatim>\<open>log.Fatal\<close> (which is \<^verbatim>\<open>os.Exit(1)\<close>, so no deferred function runs) is a result
  of its own.
\<close>

subsection \<open>Data\<close>

type_synonym byte = "8 word"

text \<open>
  A decoded packet. \<^verbatim>\<open>parse.Message\<close> is an interface; \<^verbatim>\<open>Run\<close> calls only
  \<^verbatim>\<open>MeterID()\<close> (a \<^verbatim>\<open>uint32\<close>) on it, the other fields stand for the rest of the value.
\<close>

record message =
  MeterID :: "32 word"
  MeterType :: "8 word"
  Checksum :: "byte list"

text \<open>
  \<^verbatim>\<open>parse.LogMessage\<close>. \<^verbatim>\<open>Time\<close> is what \<^verbatim>\<open>time.Now()\<close> answered, \<^verbatim>\<open>Offset\<close> the
  \<^verbatim>\<open>int64\<close> that \<^verbatim>\<open>Seek\<close> answered, \<^verbatim>\<open>Length\<close> a Go \<^verbatim>\<open>int\<close> (64 bits).
\<close>

record LogMessage =
  Time :: nat
  Offset :: int
  Length :: "64 word"
  Message :: message

text \<open>
  The dynamic type of the package variable \<^verbatim>\<open>encoder\<close>: \<^verbatim>\<open>Run\<close> tests it with the type
  assertion \<^verbatim>\<open>encoder.(*xml.Encoder)\<close>; the other encoders are told apart by a name.
\<close>

datatype encoder = XmlEncoder | OtherEncoder string

text \<open>What \<^verbatim>\<open>Run\<close> sends to the log file: an encoded record, or the line of \<^verbatim>\<open>fmt.Fprintln(logFile)\<close>.\<close>

datatype log_item = Rec LogMessage | Newline

text \<open>The filters \<^verbatim>\<open>NewReceiver\<close> adds to the chain \<^verbatim>\<open>rcvr.fc\<close>.\<close>

datatype chain_filter = UniqueFilter | MeterIDFilter | MeterTypeFilter

datatype error =
  FlagError | ParserError | OpenError | CenterFreqError | SampleRateError | TunerGainError
  | ReadError | EncodeError | WriteError

text \<open>
  The flags and the package-level values that stay fixed during a run.
  \<^verbatim>\<open>visited\<close> is the sequence of flag names \<^verbatim>\<open>flag.Visit\<close> presents (the flags set on the
  command line). \<^verbatim>\<open>Match\<close> is \<^verbatim>\<open>parse.FilterChain.Match\<close>, which is declared
  outside \<^verbatim>\<open>recv-sdr.go\<close> and is taken as a parameter: from the chain, the filters'
  private state (the history of a unique filter) and the identifier map, which it reads, it
  answers whether the packet passes, and the filters' new private state. It writes
  neither to the log file nor to the sample file.
\<close>

record 'fs config =
  single :: bool
  sampleFilename :: string
  version :: bool
  visited :: "string list"
  encoder :: encoder
  BufferLength :: "64 word"
  Match :: "chain_filter list \<Rightarrow> 'fs \<Rightarrow> 64 word set \<Rightarrow> message \<Rightarrow> bool \<times> 'fs"

text \<open>
  The mutable state: the chain \<^verbatim>\<open>rcvr.fc\<close>, the filters' private state, the keys of
  \<^verbatim>\<open>meterID.UintMap\<close> (a \<^verbatim>\<open>map[uint]bool\<close>; \<^verbatim>\<open>Run\<close> only takes its \<^verbatim>\<open>len\<close> and deletes
  keys), what has been sent to \<^verbatim>\<open>logFile\<close>, and the bytes written to \<^verbatim>\<open>sampleFile\<close>.
  \<^verbatim>\<open>sampleFile\<close> is written only by appending, so its current offset, which
  \<^verbatim>\<open>Seek(0, os.SEEK_CUR)\<close> answers when it succeeds, is the number of bytes written so
  far.
\<close>

record 'fs world =
  fc :: "chain_filter list"
  filt :: 'fs
  meterID :: "64 word set"
  logFile :: "log_item list"
  sampleFile :: "byte list"

text \<open>
  One decoded packet of a block, with what the environment answers if the packet is
  logged: the clock, whether \<^verbatim>\<open>sampleFile.Seek\<close> fails (on a sample file that cannot
  seek, a pipe for one), and whether \<^verbatim>\<open>encoder.Encode\<close> fails (a call that fails leaves no
  record in the log file).
\<close>

record cand =
  pkt :: message
  now :: nat
  seek_err :: bool
  encode_err :: bool

text \<open>
  Which case of the \<^verbatim>\<open>select\<close> statement fires in an iteration: a signal is pending, the
  time limit (if one is set) has passed, or neither.
\<close>

datatype select = SelSigint | SelTLimit | SelDefault

text \<open>
  The inputs of one iteration of the loop: the case of the \<^verbatim>\<open>select\<close>, whether
  \<^verbatim>\<open>io.ReadFull\<close> fails, the packets \<^verbatim>\<open>rcvr.p.Parse(rcvr.p.Dec().Decode(block))\<close> yields,
  the decoder's sample window \<^verbatim>\<open>rcvr.p.Dec().IQ\<close>, and whether \<^verbatim>\<open>sampleFile.Write\<close> fails
  (\<open>Some n\<close>: with an error after \<open>n\<close> bytes).
\<close>

record block_in =
  sel :: select
  read_err :: bool
  pkts :: "cand list"
  IQ :: "byte list"
  write_err :: "nat option"

text \<open>The three \<^verbatim>\<open>return\<close> statements of \<^verbatim>\<open>Run\<close>, and how an iteration or a run ends.\<close>

datatype stop = Interrupted | TimeLimitReached | SingleDone

datatype ending = Returned stop | Fatal error

datatype 'w step = Continue 'w | Done ending 'w

text \<open>The state an iteration, or the loop over the packets, leaves.\<close>

fun state_of :: "'w step \<Rightarrow> 'w" where
  "state_of (Continue s) = s"
| "state_of (Done e s) = s"

fun pkts_state :: "error \<times> 'w + bool \<times> 'w \<Rightarrow> 'w" where
  "pkts_state (Inl (e, s)) = s"
| "pkts_state (Inr (found, s)) = s"

text \<open>The records among what was sent to the log file.\<close>

fun recs :: "log_item list \<Rightarrow> LogMessage list" where
  "recs [] = []"
| "recs (Rec m # xs) = m # recs xs"
| "recs (Newline # xs) = recs xs"

subsection \<open>Receiver.Run\<close>

definition DevNull :: string where
  "DevNull = ''/dev/null''"

text \<open>
  Lines 145 to 149: the record built for a packet that passed the chain. Line 147 is
  \<^verbatim>\<open>msg.Offset, _ = sampleFile.Seek(0, os.SEEK_CUR)\<close>: the error of \<^verbatim>\<open>Seek\<close> is discarded,
  and a \<^verbatim>\<open>Seek\<close> that fails answers 0.
\<close>

definition log_message :: "'fs config \<Rightarrow> 'fs world \<Rightarrow> cand \<Rightarrow> LogMessage" where
  "log_message cfg s c =
     \<lparr>Time = now c,
      Offset = (if seek_err c then 0 else int (length (sampleFile s))),
      Length = push_bit 1 (BufferLength cfg),
      Message = pkt c\<rparr>"

text \<open>Lines 151 to 160: the record is encoded, and a line follows it if the encoder is the XML encoder.\<close>

definition is_xml :: "encoder \<Rightarrow> bool" where
  "is_xml e = (case e of XmlEncoder \<Rightarrow> True | OtherEncoder _ \<Rightarrow> False)"

definition encode :: "'fs config \<Rightarrow> LogMessage \<Rightarrow> log_item list" where
  "encode cfg msg = Rec msg # (if is_xml (encoder cfg) then [Newline] else [])"

text \<open>
  Lines 140 to 170, the loop over the packets of a block. The flag is \<^verbatim>\<open>pktFound\<close>.
  The result is \<open>Inl\<close> at a \<^verbatim>\<open>log.Fatal\<close>, with the state reached; otherwise
  \<^verbatim>\<open>pktFound\<close> and the state after the loop (left by its end or by \<^verbatim>\<open>break\<close>).
\<close>

fun range_pkts ::
  "'fs config \<Rightarrow> cand list \<Rightarrow> bool \<Rightarrow> 'fs world \<Rightarrow> error \<times> 'fs world + bool \<times> 'fs world" where
  "range_pkts cfg [] pktFound s = Inr (pktFound, s)"
| "range_pkts cfg (c # cs) pktFound s =
     (case Match cfg (fc s) (filt s) (meterID s) (pkt c) of
        (ok, fs) \<Rightarrow>
          let s1 = s\<lparr>filt := fs\<rparr> in
          if \<not> ok then range_pkts cfg cs pktFound s1
          else if encode_err c then Inl (EncodeError, s1)
          else
            let s2 = s1\<lparr>logFile := logFile s1 @ encode cfg (log_message cfg s1 c)\<rparr> in
            if single cfg then
              (if meterID s2 = {} then Inr (True, s2)
               else range_pkts cfg cs True
                      (s2\<lparr>meterID := meterID s2 - {ucast (MeterID (pkt c))}\<rparr>))
            else range_pkts cfg cs True s2)"

text \<open>Lines 172 to 182: the write of the sample window and the return of the single mode.\<close>

definition after_pkts :: "'fs config \<Rightarrow> block_in \<Rightarrow> bool \<Rightarrow> 'fs world \<Rightarrow> 'fs world step" where
  "after_pkts cfg b pktFound s =
     (if pktFound then
        (if sampleFilename cfg \<noteq> DevNull then
           (case write_err b of
              Some n \<Rightarrow> Done (Fatal WriteError) (s\<lparr>sampleFile := sampleFile s @ take n (IQ b)\<rparr>)
            | None \<Rightarrow>
                let s1 = s\<lparr>sampleFile := sampleFile s @ IQ b\<rparr> in
                if single cfg \<and> meterID s1 = {} then Done (Returned SingleDone) s1
                else Continue s1)
         else if single cfg \<and> meterID s = {} then Done (Returned SingleDone) s
         else Continue s)
      else Continue s)"

text \<open>Lines 124 to 183: one iteration of the \<^verbatim>\<open>for\<close> loop.\<close>

definition iteration :: "'fs config \<Rightarrow> block_in \<Rightarrow> 'fs world \<Rightarrow> 'fs world step" where
  "iteration cfg b s =
     (case sel b of
        SelSigint \<Rightarrow> Done (Returned Interrupted) s
      | SelTLimit \<Rightarrow> Done (Returned TimeLimitReached) s
      | SelDefault \<Rightarrow>
          if read_err b then Done (Fatal ReadError) s
          else (case range_pkts cfg (pkts b) False s of
                  Inl (e, s1) \<Rightarrow> Done (Fatal e) s1
                | Inr (pktFound, s1) \<Rightarrow> after_pkts cfg b pktFound s1))"

text \<open>
  The \<^verbatim>\<open>for\<close> loop over the iterations the environment supplies. When they are used up
  the loop has not ended: the result is \<open>Continue\<close>.
\<close>

fun loop :: "'fs config \<Rightarrow> 'fs world \<Rightarrow> block_in list \<Rightarrow> 'fs world step" where
  "loop cfg s [] = Continue s"
| "loop cfg s (b # bs) =
     (case iteration cfg b s of
        Continue s1 \<Rightarrow> loop cfg s1 bs
      | Done e s1 \<Rightarrow> Done e s1)"

subsection \<open>The calls on the device and the files\<close>

text \<open>
  The calls \<^verbatim>\<open>main\<close>, \<^verbatim>\<open>NewReceiver\<close> and \<^verbatim>\<open>Run\<close> make on the device, the pipe and the
  files, in the order they are issued, a call that fails included. \<^verbatim>\<open>Exit\<close> ends the
  program: \<^verbatim>\<open>os.Exit(0)\<close>, or the \<^verbatim>\<open>os.Exit(1)\<close> of \<^verbatim>\<open>log.Fatal\<close>. What is printed on
  the console is left out.
\<close>

datatype call =
  RtlsdrOpen | SetCenterFreq | SetSampleRate | SetTunerGainMode bool | ResetBuffer
  | ReadAsync | PipeClose | LogFileClose | SampleFileClose | CancelAsync | DeviceClose
  | Exit nat

text \<open>
  Which of the calls that can fail do fail: \<^verbatim>\<open>parse.NewParser\<close>, \<^verbatim>\<open>rtlsdr.Open\<close>, the
  three settings of the device, and \<^verbatim>\<open>CancelAsync\<close>.
\<close>

record hw =
  parser_err :: bool
  open_err :: bool
  freq_err :: bool
  rate_err :: bool
  gain_err :: bool
  cancel_err :: bool

text \<open>
  \<^verbatim>\<open>Run\<close> as a whole: the producer is started, the loop runs, and when the loop returns
  the deferred function closes both ends of the pipe. A \<^verbatim>\<open>log.Fatal\<close> leaves at once.
\<close>

definition Run :: "'fs config \<Rightarrow> 'fs world \<Rightarrow> block_in list \<Rightarrow> call list \<times> 'fs world step" where
  "Run cfg s bs =
     (case loop cfg s bs of
        Continue s1 \<Rightarrow> ([ReadAsync], Continue s1)
      | Done (Returned r) s1 \<Rightarrow> ([ReadAsync, PipeClose, PipeClose], Done (Returned r) s1)
      | Done (Fatal e) s1 \<Rightarrow> ([ReadAsync], Done (Fatal e) s1))"

subsection \<open>Receiver.NewReceiver\<close>

text \<open>The function given to \<^verbatim>\<open>flag.Visit\<close>, on \<^verbatim>\<open>gainFlagSet\<close> and the chain.\<close>

definition gain_flags :: "string list" where
  "gain_flags = [''gainbyindex'', ''tunergainmode'', ''tunergain'', ''agcmode'']"

fun visit :: "bool \<times> chain_filter list \<Rightarrow> string \<Rightarrow> bool \<times> chain_filter list" where
  "visit (gainFlagSet, chain) name =
     (if name \<in> set gain_flags then (True, chain)
      else if name = ''unique'' then (gainFlagSet, chain @ [UniqueFilter])
      else if name = ''filterid'' then (gainFlagSet, chain @ [MeterIDFilter])
      else if name = ''filtertype'' then (gainFlagSet, chain @ [MeterTypeFilter])
      else (gainFlagSet, chain))"

definition NewReceiver ::
  "'fs config \<Rightarrow> hw \<Rightarrow> 'fs world \<Rightarrow> call list \<times> (error + 'fs world)" where
  "NewReceiver cfg h s =
     (if parser_err h then ([], Inl ParserError)
      else if open_err h then ([RtlsdrOpen], Inl OpenError)
      else
        case foldl visit (False, fc s) (visited cfg) of
          (gainFlagSet, chain) \<Rightarrow>
            if freq_err h then ([RtlsdrOpen, SetCenterFreq], Inl CenterFreqError)
            else if rate_err h then ([RtlsdrOpen, SetCenterFreq, SetSampleRate], Inl SampleRateError)
            else if gain_err h then
              ([RtlsdrOpen, SetCenterFreq, SetSampleRate, SetTunerGainMode gainFlagSet],
               Inl TunerGainError)
            else
              ([RtlsdrOpen, SetCenterFreq, SetSampleRate, SetTunerGainMode gainFlagSet,
                ResetBuffer],
               Inr (s\<lparr>fc := chain\<rparr>)))"

subsection \<open>main\<close>

text \<open>Lines 216 to 228, the deferred function of \<^verbatim>\<open>main\<close>.\<close>

definition deferred :: "hw \<Rightarrow> call list" where
  "deferred h =
     [LogFileClose, SampleFileClose, CancelAsync]
       @ (if cancel_err h then [Exit 1] else [DeviceClose, Exit 0])"

text \<open>
  \<^verbatim>\<open>main\<close>, as the sequence of calls it makes and the state it leaves.
  \<^verbatim>\<open>HandleFlags\<close> is declared outside \<^verbatim>\<open>recv-sdr.go\<close> and is a parameter: \<open>Some e\<close> when
  it ends the program with \<^verbatim>\<open>log.Fatal\<close>. The deferred function is registered after
  \<^verbatim>\<open>NewReceiver\<close> and a \<^verbatim>\<open>log.Fatal\<close> ends the program where it stands, so the deferred
  function runs only when \<^verbatim>\<open>Run\<close> returns. When the blocks supplied are used up and
  the loop has not ended, the calls are those made so far.
\<close>

definition main ::
  "('fs config \<Rightarrow> 'fs world \<Rightarrow> error option) \<Rightarrow> 'fs config \<Rightarrow> hw \<Rightarrow> block_in list
     \<Rightarrow> 'fs world \<Rightarrow> call list \<times> 'fs world" where
  "main HandleFlags cfg h bs s =
     (if version cfg then ([Exit 0], s)
      else
        case HandleFlags cfg s of
          Some e \<Rightarrow> ([Exit 1], s)
        | None \<Rightarrow>
            (case NewReceiver cfg h s of
               (ops, Inl e) \<Rightarrow> (ops @ [Exit 1], s)
             | (ops, Inr s1) \<Rightarrow>
                 (case Run cfg s1 bs of
                    (ops', Continue s2) \<Rightarrow> (ops @ ops', s2)
                  | (ops', Done (Returned r) s2) \<Rightarrow> (ops @ ops' @ deferred h, s2)
                  | (ops', Done (Fatal e) s2) \<Rightarrow> (ops @ ops' @ [Exit 1], s2))))"

subsection \<open>The parts declared outside recv-sdr.go\<close>

text \<open>
  Modelled from the spec: \<^verbatim>\<open>parse.FilterChain.Match\<close> and the \<^verbatim>\<open>Filter\<close> methods of the
  three filters, which are declared outside \<^verbatim>\<open>recv-sdr.go\<close>. The chain accepts a message when it
  is empty or every filter accepts, asking the filters in order and stopping at the first
  rejection. The unique filter rejects a message already accepted (by identifier and
  content key) and records the others; the identifier filter accepts when the message's
  identifier is in its set or the set is empty; the type filter does the same on the type
  tag. The theorems below hold for every \<^verbatim>\<open>Match\<close>; this one is the \<^verbatim>\<open>Match\<close> of the
  concrete runs, none of which puts a packet to the identifier filter on an empty set.
\<close>

record filters =
  seen :: "(32 word \<times> byte list) list"
  meterType :: "8 word set"

fun Filter :: "chain_filter \<Rightarrow> filters \<Rightarrow> 64 word set \<Rightarrow> message \<Rightarrow> bool \<times> filters" where
  "Filter UniqueFilter fs ids m =
     (if (MeterID m, Checksum m) \<in> set (seen fs) then (False, fs)
      else (True, fs\<lparr>seen := (MeterID m, Checksum m) # seen fs\<rparr>))"
| "Filter MeterIDFilter fs ids m = (ids = {} \<or> ucast (MeterID m) \<in> ids, fs)"
| "Filter MeterTypeFilter fs ids m = (meterType fs = {} \<or> MeterType m \<in> meterType fs, fs)"

fun chain_Match :: "chain_filter list \<Rightarrow> filters \<Rightarrow> 64 word set \<Rightarrow> message \<Rightarrow> bool \<times> filters" where
  "chain_Match [] fs ids m = (True, fs)"
| "chain_Match (f # chain) fs ids m =
     (case Filter f fs ids m of
        (ok, fs1) \<Rightarrow> if ok then chain_Match chain fs1 ids m else (False, fs1))"

subsection \<open>Auxiliary notions\<close>

text \<open>The state after lines 145 to 160 for a packet that passed the chain and was encoded.\<close>

definition accept :: "'fs config \<Rightarrow> 'fs world \<Rightarrow> cand \<Rightarrow> 'fs \<Rightarrow> 'fs world" where
  "accept cfg s c fs = s\<lparr>filt := fs, logFile := logFile s @ encode cfg (log_message cfg s c)\<rparr>"

text \<open>What logging the packets \<open>acc\<close> in turn sends to the log file.\<close>

definition logged :: "'fs config \<Rightarrow> 'fs world \<Rightarrow> cand list \<Rightarrow> log_item list" where
  "logged cfg s acc = concat (map (\<lambda>c. encode cfg (log_message cfg s c)) acc)"

text \<open>
  The packets of a block that pass the chain when every one of them is put to it, in
  order, each in the state its predecessors leave: the filters' private state and, in
  single mode, the identifier map without the identifiers of the packets that passed
  before.
\<close>

fun passing ::
  "'fs config \<Rightarrow> chain_filter list \<Rightarrow> 'fs \<Rightarrow> 64 word set \<Rightarrow> cand list \<Rightarrow> cand list" where
  "passing cfg chain fs ids [] = []"
| "passing cfg chain fs ids (c # cs) =
     (case Match cfg chain fs ids (pkt c) of
        (ok, fs1) \<Rightarrow>
          if ok then
            c # passing cfg chain fs1
                  (if single cfg then ids - {ucast (MeterID (pkt c))} else ids) cs
          else passing cfg chain fs1 ids cs)"

text \<open>Whether an iteration ended in \<^verbatim>\<open>log.Fatal\<close>.\<close>

fun fatal :: "'w step \<Rightarrow> bool" where
  "fatal (Done (Fatal e) s) = True"
| "fatal (Done (Returned r) s) = False"
| "fatal (Continue s) = False"

text \<open>The identifiers of a list of packets, as keys of the identifier map.\<close>

definition ids_of :: "cand list \<Rightarrow> 64 word set" where
  "ids_of cs = (\<lambda>c. ucast (MeterID (pkt c))) ` set cs"

text \<open>
  A list of packets up to the end of the single mode: the whole list, except that in
  single mode (\<open>sg\<close>) it ends with the first packet at whose turn the identifier set, less
  the identifiers of the packets before it, is empty.
\<close>

fun until_done :: "bool \<Rightarrow> 64 word set \<Rightarrow> cand list \<Rightarrow> cand list" where
  "until_done sg ids [] = []"
| "until_done sg ids (c # cs) =
     c # (if sg \<and> ids = {} then []
          else until_done sg (if sg then ids - {ucast (MeterID (pkt c))} else ids) cs)"

text \<open>
  The packets of a block that pass the chain, up to the end of the single mode: what an
  iteration logs when no call fails, as the lemmas below show.
\<close>

definition block_logged :: "'fs config \<Rightarrow> 'fs world \<Rightarrow> block_in \<Rightarrow> cand list" where
  "block_logged cfg s b =
     until_done (single cfg) (meterID s) (passing cfg (fc s) (filt s) (meterID s) (pkts b))"

text \<open>
  What the lemmas on the loop over the packets establish of the packets \<open>acc\<close> it logs.
\<close>

definition pkts_spec ::
  "'fs config \<Rightarrow> cand list \<Rightarrow> bool \<Rightarrow> 'fs world \<Rightarrow> cand list \<Rightarrow> bool" where
  "pkts_spec cfg cs pktFound s acc =
     (prefix acc (passing cfg (fc s) (filt s) (meterID s) cs)
      \<and> logFile (pkts_state (range_pkts cfg cs pktFound s)) = logFile s @ logged cfg s acc
      \<and> (\<forall>found s'. range_pkts cfg cs pktFound s = Inr (found, s') \<longrightarrow>
            found = (pktFound \<or> acc \<noteq> [])
            \<and> (acc = passing cfg (fc s) (filt s) (meterID s) cs \<or> single cfg \<and> meterID s' = {}))
      \<and> (acc = [] \<longrightarrow> meterID (pkts_state (range_pkts cfg cs pktFound s)) = meterID s)
      \<and> (single cfg \<longrightarrow>
            (\<forall>c \<in> set acc.
               ucast (MeterID (pkt c)) \<notin> meterID (pkts_state (range_pkts cfg cs pktFound s))))
      \<and> ((\<forall>c \<in> set cs. \<not> encode_err c) \<longrightarrow>
            (\<exists>found s'. range_pkts cfg cs pktFound s = Inr (found, s'))))"

text \<open>What the lemmas on an iteration establish of the packets \<open>acc\<close> it logs.\<close>

definition block_spec :: "'fs config \<Rightarrow> block_in \<Rightarrow> 'fs world \<Rightarrow> cand list \<Rightarrow> bool" where
  "block_spec cfg b s acc =
     (let r = iteration cfg b s; s' = state_of r in
      prefix acc (passing cfg (fc s) (filt s) (meterID s) (pkts b))
      \<and> logFile s' = logFile s @ logged cfg s acc
      \<and> meterID s' \<subseteq> meterID s
      \<and> (acc = [] \<longrightarrow>
            sampleFile s' = sampleFile s \<and> meterID s' = meterID s
            \<and> r \<noteq> Done (Returned SingleDone) s')
      \<and> (sampleFile s' = sampleFile s \<or> sampleFile s' = sampleFile s @ IQ b
          \<or> (\<exists>n. write_err b = Some n \<and> sampleFile s' = sampleFile s @ take n (IQ b)))
      \<and> (sampleFilename cfg = DevNull \<longrightarrow> sampleFile s' = sampleFile s)
      \<and> (acc \<noteq> [] \<and> sampleFilename cfg \<noteq> DevNull \<and> \<not> fatal r \<longrightarrow>
            sampleFile s' = sampleFile s @ IQ b)
      \<and> (sel b = SelDefault \<and> \<not> fatal r \<longrightarrow>
            acc = passing cfg (fc s) (filt s) (meterID s) (pkts b) \<or> single cfg \<and> meterID s' = {})
      \<and> (sel b = SelDefault \<and> \<not> fatal r \<longrightarrow>
            (if single cfg \<and> acc \<noteq> [] \<and> meterID s' = {} then r = Done (Returned SingleDone) s'
             else r = Continue s')))"

subsection \<open>Concrete runs\<close>

text \<open>
  Three packets, a receiver started with \<^verbatim>\<open>-single -filterid=42\<close>, a device on which
  every call succeeds, and blocks that are read in full and archived without error.
\<close>

definition m42 :: message where
  "m42 = \<lparr>MeterID = 42, MeterType = 7, Checksum = [1, 2]\<rparr>"

definition m43 :: message where
  "m43 = \<lparr>MeterID = 43, MeterType = 7, Checksum = [3, 4]\<rparr>"

definition m44 :: message where
  "m44 = \<lparr>MeterID = 44, MeterType = 8, Checksum = [5, 6]\<rparr>"

definition heard :: "message \<Rightarrow> nat \<Rightarrow> cand" where
  "heard m t = \<lparr>pkt = m, now = t, seek_err = False, encode_err = False\<rparr>"

definition block_of :: "cand list \<Rightarrow> block_in" where
  "block_of cs =
     \<lparr>sel = SelDefault, read_err = False, pkts = cs, IQ = [1, 2, 3, 4], write_err = None\<rparr>"

definition cfg_single :: "filters config" where
  "cfg_single =
     \<lparr>single = True, sampleFilename = ''samples.bin'', version = False,
      visited = [''filterid'', ''single''], encoder = OtherEncoder ''plain'',
      BufferLength = 2048, Match = chain_Match\<rparr>"

definition start :: "filters world" where
  "start =
     \<lparr>fc = [], filt = \<lparr>seen = [], meterType = {}\<rparr>, meterID = {42},
      logFile = [], sampleFile = []\<rparr>"

text \<open>The state \<^verbatim>\<open>NewReceiver\<close> leaves from \<open>start\<close>, with eight bytes in the archive.\<close>

definition tuned :: "filters world" where
  "tuned = start\<lparr>fc := [MeterIDFilter], sampleFile := [0, 0, 0, 0, 0, 0, 0, 0]\<rparr>"

definition hw_ok :: hw where
  "hw_ok =
     \<lparr>parser_err = False, open_err = False, freq_err = False, rate_err = False,
      gain_err = False, cancel_err = False\<rparr>"

text \<open>The same receiver without \<^verbatim>\<open>-single\<close>, and with the XML encoder.\<close>

definition cfg_filter :: "filters config" where
  "cfg_filter = cfg_single\<lparr>single := False\<rparr>"

definition cfg_xml :: "filters config" where
  "cfg_xml = cfg_single\<lparr>single := False, encoder := XmlEncoder\<rparr>"

text \<open>
  A receiver started with \<^verbatim>\<open>-single\<close> alone: no filter is in the chain and the identifier
  map is empty.
\<close>

definition cfg_oneshot :: "filters config" where
  "cfg_oneshot = cfg_single\<lparr>visited := [''single'']\<rparr>"

definition idle :: "filters world" where
  "idle = start\<lparr>meterID := {}\<rparr>"

text \<open>A receiver that awaits the meters 42 and 43.\<close>

definition tuned2 :: "filters world" where
  "tuned2 = tuned\<lparr>meterID := {42, 43}\<rparr>"

text \<open>A packet logged while the sample file cannot seek.\<close>

definition heard_blind :: "message \<Rightarrow> nat \<Rightarrow> cand" where
  "heard_blind m t = (heard m t)\<lparr>seek_err := True\<rparr>"

text \<open>A \<^verbatim>\<open>HandleFlags\<close> that returns.\<close>

definition flags_ok :: "filters config \<Rightarrow> filters world \<Rightarrow> error option" where
  "flags_ok cfg s = None"

section \<open>Properties\<close>

text \<open>The unfolding of the concrete runs.\<close>

lemmas run_defs =
  m42_def m43_def m44_def heard_def heard_blind_def block_of_def
  cfg_single_def cfg_filter_def cfg_xml_def cfg_oneshot_def
  start_def tuned_def tuned2_def idle_def hw_ok_def flags_ok_def
  main_def NewReceiver_def gain_flags_def Run_def deferred_def
  iteration_def after_pkts_def encode_def log_message_def is_xml_def DevNull_def
  block_logged_def
  range_pkts.simps(2)

subsection \<open>The loop over the packets of a block\<close>

lemma range_pkts_rejected:
  "Match cfg (fc s) (filt s) (meterID s) (pkt c) = (False, fs) \<Longrightarrow>
     range_pkts cfg (c # cs) pktFound s = range_pkts cfg cs pktFound (s\<lparr>filt := fs\<rparr>)"
  by simp

lemma range_pkts_encode_err:
  "Match cfg (fc s) (filt s) (meterID s) (pkt c) = (True, fs) \<Longrightarrow> encode_err c \<Longrightarrow>
     range_pkts cfg (c # cs) pktFound s = Inl (EncodeError, s\<lparr>filt := fs\<rparr>)"
  by simp

lemma range_pkts_accepted:
  "Match cfg (fc s) (filt s) (meterID s) (pkt c) = (True, fs) \<Longrightarrow> \<not> encode_err c \<Longrightarrow>
     range_pkts cfg (c # cs) pktFound s =
       (if single cfg then
          (if meterID s = {} then Inr (True, accept cfg s c fs)
           else range_pkts cfg cs True
                  ((accept cfg s c fs)\<lparr>meterID := meterID s - {ucast (MeterID (pkt c))}\<rparr>))
        else range_pkts cfg cs True (accept cfg s c fs))"
  by (simp add: accept_def Let_def log_message_def)

declare range_pkts.simps(2) [simp del]

text \<open>The five ways through the body of the loop.\<close>

lemma range_pkts_cases [case_names rejected encode_err break delete plain]:
  assumes "\<And>fs. Match cfg (fc s) (filt s) (meterID s) (pkt c) = (False, fs) \<Longrightarrow>
             range_pkts cfg (c # cs) pktFound s = range_pkts cfg cs pktFound (s\<lparr>filt := fs\<rparr>) \<Longrightarrow> P"
    and "\<And>fs. Match cfg (fc s) (filt s) (meterID s) (pkt c) = (True, fs) \<Longrightarrow> encode_err c \<Longrightarrow>
             range_pkts cfg (c # cs) pktFound s = Inl (EncodeError, s\<lparr>filt := fs\<rparr>) \<Longrightarrow> P"
    and "\<And>fs. Match cfg (fc s) (filt s) (meterID s) (pkt c) = (True, fs) \<Longrightarrow> \<not> encode_err c \<Longrightarrow>
             single cfg \<Longrightarrow> meterID s = {} \<Longrightarrow>
             range_pkts cfg (c # cs) pktFound s = Inr (True, accept cfg s c fs) \<Longrightarrow> P"
    and "\<And>fs. Match cfg (fc s) (filt s) (meterID s) (pkt c) = (True, fs) \<Longrightarrow> \<not> encode_err c \<Longrightarrow>
             single cfg \<Longrightarrow> meterID s \<noteq> {} \<Longrightarrow>
             range_pkts cfg (c # cs) pktFound s =
               range_pkts cfg cs True
                 ((accept cfg s c fs)\<lparr>meterID := meterID s - {ucast (MeterID (pkt c))}\<rparr>) \<Longrightarrow> P"
    and "\<And>fs. Match cfg (fc s) (filt s) (meterID s) (pkt c) = (True, fs) \<Longrightarrow> \<not> encode_err c \<Longrightarrow>
             \<not> single cfg \<Longrightarrow>
             range_pkts cfg (c # cs) pktFound s = range_pkts cfg cs True (accept cfg s c fs) \<Longrightarrow> P"
  shows P
proof -
  obtain ok fs where m: "Match cfg (fc s) (filt s) (meterID s) (pkt c) = (ok, fs)"
    by (cases "Match cfg (fc s) (filt s) (meterID s) (pkt c)")
  show P
  proof (cases ok)
    case False
    with m assms(1) [of fs] range_pkts_rejected [of cfg s c fs cs pktFound] show P by simp
  next
    case True
    note ok = this
    show P
    proof (cases "encode_err c")
      case True
      with m ok assms(2) [of fs] range_pkts_encode_err [of cfg s c fs cs pktFound] show P by simp
    next
      case False
      with m ok have r: "Match cfg (fc s) (filt s) (meterID s) (pkt c) = (True, fs)" by simp
      note a = range_pkts_accepted [OF r False, of cs pktFound]
      show P
      proof (cases "single cfg")
        case True
        note sg = this
        show P
        proof (cases "meterID s = {}")
          case True
          with a sg assms(3) [OF r False sg True] show P by simp
        next
          case False
          with a sg assms(4) [OF r \<open>\<not> encode_err c\<close> sg False] show P by simp
        qed
      next
        case False
        with a assms(5) [OF r \<open>\<not> encode_err c\<close> False] show P by simp
      qed
    qed
  qed
qed

lemma accept_fields [simp]:
  "fc (accept cfg s c fs) = fc s"
  "filt (accept cfg s c fs) = fs"
  "meterID (accept cfg s c fs) = meterID s"
  "sampleFile (accept cfg s c fs) = sampleFile s"
  "logFile (accept cfg s c fs) = logFile s @ encode cfg (log_message cfg s c)"
  by (simp_all add: accept_def)

lemma logged_Nil [simp]: "logged cfg s [] = []"
  by (simp add: logged_def)

lemma logged_Cons: "logged cfg s (c # acc) = encode cfg (log_message cfg s c) @ logged cfg s acc"
  by (simp add: logged_def)

lemma logged_sampleFile:
  "sampleFile s1 = sampleFile s \<Longrightarrow> logged cfg s1 acc = logged cfg s acc"
  by (simp add: logged_def log_message_def cong: if_cong)

lemma recs_append [simp]: "recs (xs @ ys) = recs xs @ recs ys"
  by (induction xs rule: recs.induct) simp_all

lemma recs_logged [simp]: "recs (logged cfg s acc) = map (log_message cfg s) acc"
  by (induction acc) (simp_all add: logged_Cons encode_def)

lemma range_pkts_sampleFile:
  "sampleFile (pkts_state (range_pkts cfg cs pktFound s)) = sampleFile s"
proof (induction cs arbitrary: pktFound s)
  case Nil
  show ?case by simp
next
  case (Cons c cs)
  show ?case
    by (cases rule: range_pkts_cases [of cfg s c cs pktFound]) (simp_all add: Cons.IH)
qed

lemma range_pkts_fc:
  "fc (pkts_state (range_pkts cfg cs pktFound s)) = fc s"
proof (induction cs arbitrary: pktFound s)
  case Nil
  show ?case by simp
next
  case (Cons c cs)
  show ?case
    by (cases rule: range_pkts_cases [of cfg s c cs pktFound]) (simp_all add: Cons.IH)
qed

lemma range_pkts_meterID:
  "meterID (pkts_state (range_pkts cfg cs pktFound s)) \<subseteq> meterID s"
proof (induction cs arbitrary: pktFound s)
  case Nil
  show ?case by simp
next
  case (Cons c cs)
  show ?case
  proof (cases rule: range_pkts_cases [of cfg s c cs pktFound])
    case (delete fs)
    let ?s3 = "(accept cfg s c fs)\<lparr>meterID := meterID s - {ucast (MeterID (pkt c))}\<rparr>"
    have "meterID (pkts_state (range_pkts cfg cs True ?s3)) \<subseteq> meterID ?s3"
      by (rule Cons.IH)
    with delete(5) show ?thesis by auto
  next
    case (rejected fs)
    with Cons.IH [of pktFound "s\<lparr>filt := fs\<rparr>"] show ?thesis by simp
  next
    case (plain fs)
    with Cons.IH [of True "accept cfg s c fs"] show ?thesis by simp
  qed simp_all
qed

text \<open>The loop over the packets logs a prefix of the packets that pass the chain.\<close>

lemma range_pkts_log: "\<exists>acc. pkts_spec cfg cs pktFound s acc"
proof (induction cs arbitrary: pktFound s)
  case Nil
  show ?case by (intro exI [of _ "[]"]) (simp add: pkts_spec_def)
next
  case (Cons c cs)
  show ?case
  proof (cases rule: range_pkts_cases [of cfg s c cs pktFound])
    case (rejected fs)
    from Cons.IH [of pktFound "s\<lparr>filt := fs\<rparr>"] obtain acc where
      "pkts_spec cfg cs pktFound (s\<lparr>filt := fs\<rparr>) acc" ..
    with rejected have "pkts_spec cfg (c # cs) pktFound s acc"
      by (simp add: pkts_spec_def logged_sampleFile [of "s\<lparr>filt := fs\<rparr>" s])
    then show ?thesis ..
  next
    case (encode_err fs)
    then have "pkts_spec cfg (c # cs) pktFound s []"
      by (auto simp: pkts_spec_def)
    then show ?thesis ..
  next
    case (break fs)
    then have "pkts_spec cfg (c # cs) pktFound s [c]"
      by (auto simp: pkts_spec_def logged_Cons)
    then show ?thesis ..
  next
    case (delete fs)
    let ?s3 = "(accept cfg s c fs)\<lparr>meterID := meterID s - {ucast (MeterID (pkt c))}\<rparr>"
    from Cons.IH [of True ?s3] obtain acc where a: "pkts_spec cfg cs True ?s3 acc" ..
    have sub: "meterID (pkts_state (range_pkts cfg cs True ?s3)) \<subseteq> meterID ?s3"
      by (rule range_pkts_meterID)
    have l: "logged cfg ?s3 acc = logged cfg s acc"
      by (rule logged_sampleFile) simp
    from a delete sub have "pkts_spec cfg (c # cs) pktFound s (c # acc)"
      unfolding pkts_spec_def l by (auto simp: logged_Cons)
    then show ?thesis ..
  next
    case (plain fs)
    let ?s2 = "accept cfg s c fs"
    from Cons.IH [of True ?s2] obtain acc where a: "pkts_spec cfg cs True ?s2 acc" ..
    have l: "logged cfg ?s2 acc = logged cfg s acc"
      by (rule logged_sampleFile) simp
    from a plain have "pkts_spec cfg (c # cs) pktFound s (c # acc)"
      unfolding pkts_spec_def l by (auto simp: logged_Cons)
    then show ?thesis ..
  qed
qed

lemma ids_of_Nil [simp]: "ids_of [] = {}"
  by (simp add: ids_of_def)

lemma ids_of_Cons [simp]: "ids_of (c # cs) = insert (ucast (MeterID (pkt c))) (ids_of cs)"
  by (simp add: ids_of_def)

lemma until_done_plain [simp]: "until_done False ids cs = cs"
  by (induction cs) simp_all

lemma until_done_empty: "until_done True {} cs = take 1 cs"
  by (cases cs) simp_all

text \<open>What the loop over the packets does when no encoding fails.\<close>

lemma range_pkts_exact:
  assumes "\<forall>c \<in> set cs. \<not> encode_err c"
  shows "range_pkts cfg cs pktFound s =
           Inr (pktFound \<or> until_done (single cfg) (meterID s)
                               (passing cfg (fc s) (filt s) (meterID s) cs) \<noteq> [],
                pkts_state (range_pkts cfg cs pktFound s))
       \<and> logFile (pkts_state (range_pkts cfg cs pktFound s)) =
           logFile s @ logged cfg s (until_done (single cfg) (meterID s)
                                      (passing cfg (fc s) (filt s) (meterID s) cs))
       \<and> meterID (pkts_state (range_pkts cfg cs pktFound s)) =
           (if single cfg
            then meterID s - ids_of (until_done (single cfg) (meterID s)
                                      (passing cfg (fc s) (filt s) (meterID s) cs))
            else meterID s)"
  using assms
proof (induction cs arbitrary: pktFound s)
  case Nil
  show ?case by simp
next
  case (Cons c cs)
  from Cons.prems have ne: "\<not> encode_err c" and rest: "\<forall>c \<in> set cs. \<not> encode_err c"
    by simp_all
  show ?case
  proof (cases rule: range_pkts_cases [of cfg s c cs pktFound])
    case (rejected fs)
    with Cons.IH [OF rest, of pktFound "s\<lparr>filt := fs\<rparr>"] show ?thesis
      by (simp add: logged_sampleFile [of "s\<lparr>filt := fs\<rparr>" s])
  next
    case (encode_err fs)
    with ne show ?thesis by simp
  next
    case (break fs)
    then show ?thesis by (simp add: logged_Cons)
  next
    case (delete fs)
    let ?s3 = "(accept cfg s c fs)\<lparr>meterID := meterID s - {ucast (MeterID (pkt c))}\<rparr>"
    have l: "logged cfg ?s3 acc = logged cfg s acc" for acc
      by (rule logged_sampleFile) simp
    from delete Cons.IH [OF rest, of True ?s3] show ?thesis
      by (auto simp: logged_Cons l)
  next
    case (plain fs)
    let ?s2 = "accept cfg s c fs"
    have l: "logged cfg ?s2 acc = logged cfg s acc" for acc
      by (rule logged_sampleFile) simp
    from plain Cons.IH [OF rest, of True ?s2] show ?thesis
      by (simp add: logged_Cons l)
  qed
qed

lemma passing_subset: "set (passing cfg chain fs ids cs) \<subseteq> set cs"
proof (induction cs arbitrary: fs ids)
  case Nil
  show ?case by simp
next
  case (Cons c cs)
  obtain ok fs1 where m: "Match cfg chain fs ids (pkt c) = (ok, fs1)"
    by (cases "Match cfg chain fs ids (pkt c)")
  show ?case
    using m Cons.IH [of fs1 ids] Cons.IH [of fs1 "ids - {ucast (MeterID (pkt c))}"]
    by (cases ok) (auto split: if_splits)
qed

subsection \<open>One iteration\<close>

lemma after_pkts_False [simp]: "after_pkts cfg b False s = Continue s"
  by (simp add: after_pkts_def)

lemma iteration_log: "\<exists>acc. block_spec cfg b s acc"
proof (cases "sel b = SelDefault \<and> \<not> read_err b")
  case False
  then have "block_spec cfg b s []"
    by (cases "sel b") (auto simp: block_spec_def iteration_def)
  then show ?thesis ..
next
  case True
  obtain acc where a: "pkts_spec cfg (pkts b) False s acc"
    using range_pkts_log by blast
  have sf: "sampleFile (pkts_state (range_pkts cfg (pkts b) False s)) = sampleFile s"
    by (rule range_pkts_sampleFile)
  have sub: "meterID (pkts_state (range_pkts cfg (pkts b) False s)) \<subseteq> meterID s"
    by (rule range_pkts_meterID)
  have "block_spec cfg b s acc"
  proof (cases "range_pkts cfg (pkts b) False s")
    case (Inl x)
    obtain e s1 where x: "x = (e, s1)" by (cases x)
    with Inl True a sf sub show ?thesis
      by (auto simp: block_spec_def iteration_def pkts_spec_def)
  next
    case (Inr x)
    obtain found s1 where x: "x = (found, s1)" by (cases x)
    show ?thesis
    proof (cases found)
      case False
      with Inr x True a sf sub show ?thesis
        by (auto simp: block_spec_def iteration_def pkts_spec_def)
    next
      case t: True
      from Inr x t a have ne: "acc \<noteq> []"
        unfolding pkts_spec_def by blast
      from Inr x t a have all: "acc = passing cfg (fc s) (filt s) (meterID s) (pkts b)
          \<or> single cfg \<and> meterID s1 = {}"
        unfolding pkts_spec_def by blast
      from a have pl: "prefix acc (passing cfg (fc s) (filt s) (meterID s) (pkts b))"
        "logFile (pkts_state (range_pkts cfg (pkts b) False s)) = logFile s @ logged cfg s acc"
        unfolding pkts_spec_def by blast+
      from Inr x t True pl sf sub ne all show ?thesis
        by (auto simp: block_spec_def iteration_def after_pkts_def Let_def
            split: option.splits)
    qed
  qed
  then show ?thesis ..
qed


lemma block_specD:
  assumes "block_spec cfg b s acc"
  shows "prefix acc (passing cfg (fc s) (filt s) (meterID s) (pkts b))"
    and "logFile (state_of (iteration cfg b s)) = logFile s @ logged cfg s acc"
    and "meterID (state_of (iteration cfg b s)) \<subseteq> meterID s"
    and "acc = [] \<Longrightarrow> sampleFile (state_of (iteration cfg b s)) = sampleFile s"
    and "acc = [] \<Longrightarrow> meterID (state_of (iteration cfg b s)) = meterID s"
    and "acc = [] \<Longrightarrow> iteration cfg b s \<noteq> Done (Returned SingleDone) (state_of (iteration cfg b s))"
    and "sampleFile (state_of (iteration cfg b s)) = sampleFile s
         \<or> sampleFile (state_of (iteration cfg b s)) = sampleFile s @ IQ b
         \<or> (\<exists>n. write_err b = Some n
               \<and> sampleFile (state_of (iteration cfg b s)) = sampleFile s @ take n (IQ b))"
    and "sampleFilename cfg = DevNull \<Longrightarrow> sampleFile (state_of (iteration cfg b s)) = sampleFile s"
    and "acc \<noteq> [] \<Longrightarrow> sampleFilename cfg \<noteq> DevNull \<Longrightarrow> \<not> fatal (iteration cfg b s) \<Longrightarrow>
           sampleFile (state_of (iteration cfg b s)) = sampleFile s @ IQ b"
    and "sel b = SelDefault \<Longrightarrow> \<not> fatal (iteration cfg b s) \<Longrightarrow>
           acc = passing cfg (fc s) (filt s) (meterID s) (pkts b)
           \<or> single cfg \<and> meterID (state_of (iteration cfg b s)) = {}"
    and "sel b = SelDefault \<Longrightarrow> \<not> fatal (iteration cfg b s) \<Longrightarrow>
           (if single cfg \<and> acc \<noteq> [] \<and> meterID (state_of (iteration cfg b s)) = {}
            then iteration cfg b s = Done (Returned SingleDone) (state_of (iteration cfg b s))
            else iteration cfg b s = Continue (state_of (iteration cfg b s)))"
  using assms unfolding block_spec_def Let_def by blast+



lemma logged_encoder:
  "logged cfg s acc =
     (if encoder cfg = XmlEncoder then concat (map (\<lambda>m. [Rec m, Newline]) (map (log_message cfg s) acc))
      else map Rec (map (log_message cfg s) acc))"
  by (cases "encoder cfg") (simp_all add: logged_def encode_def is_xml_def comp_def)

text \<open>What an iteration does when the block is read and no encoding fails.\<close>

lemma iteration_exact:
  assumes "sel b = SelDefault" and "\<not> read_err b" and "\<forall>c \<in> set (pkts b). \<not> encode_err c"
  shows "logFile (state_of (iteration cfg b s)) = logFile s @ logged cfg s (block_logged cfg s b)"
    and "meterID (state_of (iteration cfg b s)) =
           (if single cfg then meterID s - ids_of (block_logged cfg s b) else meterID s)"
    and "sampleFile (state_of (iteration cfg b s)) =
           (if block_logged cfg s b \<noteq> [] \<and> sampleFilename cfg \<noteq> DevNull
            then sampleFile s @ (case write_err b of None \<Rightarrow> IQ b | Some n \<Rightarrow> take n (IQ b))
            else sampleFile s)"
    and "iteration cfg b s =
           (if block_logged cfg s b \<noteq> [] \<and> sampleFilename cfg \<noteq> DevNull \<and> write_err b \<noteq> None
            then Done (Fatal WriteError) (state_of (iteration cfg b s))
            else if single cfg \<and> block_logged cfg s b \<noteq> []
                    \<and> meterID s - ids_of (block_logged cfg s b) = {}
            then Done (Returned SingleDone) (state_of (iteration cfg b s))
            else Continue (state_of (iteration cfg b s)))"
proof -
  let ?R = "range_pkts cfg (pkts b) False s"
  let ?s1 = "pkts_state ?R"
  note x = range_pkts_exact [OF assms(3), of cfg False s]
  from x have r: "?R = Inr (block_logged cfg s b \<noteq> [], ?s1)"
    by (simp add: block_logged_def)
  from x have l: "logFile ?s1 = logFile s @ logged cfg s (block_logged cfg s b)"
    by (simp add: block_logged_def)
  from x have m: "meterID ?s1 =
      (if single cfg then meterID s - ids_of (block_logged cfg s b) else meterID s)"
    by (simp add: block_logged_def)
  have f: "sampleFile ?s1 = sampleFile s"
    by (rule range_pkts_sampleFile)
  have i: "iteration cfg b s = after_pkts cfg b (block_logged cfg s b \<noteq> []) ?s1"
    using assms(1,2) by (simp add: iteration_def) (subst r, simp)
  show "logFile (state_of (iteration cfg b s)) = logFile s @ logged cfg s (block_logged cfg s b)"
    unfolding i using l by (simp add: after_pkts_def Let_def split: option.splits)
  show "meterID (state_of (iteration cfg b s)) =
           (if single cfg then meterID s - ids_of (block_logged cfg s b) else meterID s)"
    unfolding i using m by (simp add: after_pkts_def Let_def split: option.splits)
  show "sampleFile (state_of (iteration cfg b s)) =
           (if block_logged cfg s b \<noteq> [] \<and> sampleFilename cfg \<noteq> DevNull
            then sampleFile s @ (case write_err b of None \<Rightarrow> IQ b | Some n \<Rightarrow> take n (IQ b))
            else sampleFile s)"
    unfolding i using f by (simp add: after_pkts_def Let_def split: option.splits)
  show "iteration cfg b s =
           (if block_logged cfg s b \<noteq> [] \<and> sampleFilename cfg \<noteq> DevNull \<and> write_err b \<noteq> None
            then Done (Fatal WriteError) (state_of (iteration cfg b s))
            else if single cfg \<and> block_logged cfg s b \<noteq> []
                    \<and> meterID s - ids_of (block_logged cfg s b) = {}
            then Done (Returned SingleDone) (state_of (iteration cfg b s))
            else Continue (state_of (iteration cfg b s)))"
    unfolding i using m by (auto simp: after_pkts_def Let_def split: option.splits)
qed

subsection \<open>The loop\<close>

lemma loop_append:
  "loop cfg s (bs1 @ bs2) =
     (case loop cfg s bs1 of Continue s1 \<Rightarrow> loop cfg s1 bs2 | Done e s1 \<Rightarrow> Done e s1)"
  by (induction bs1 arbitrary: s) (simp_all split: step.splits)

text \<open>How an iteration of the single mode ends when the select statement falls through.\<close>

lemma iteration_single:
  assumes "single cfg" and "sel b = SelDefault" and "meterID s \<noteq> {}"
  shows "fatal (iteration cfg b s)
       \<or> iteration cfg b s = Continue (state_of (iteration cfg b s))
           \<and> meterID (state_of (iteration cfg b s)) \<noteq> {}
       \<or> iteration cfg b s = Done (Returned SingleDone) (state_of (iteration cfg b s))
           \<and> meterID (state_of (iteration cfg b s)) = {}
           \<and> (sampleFilename cfg \<noteq> DevNull \<longrightarrow>
                 sampleFile (state_of (iteration cfg b s)) = sampleFile s @ IQ b)"
proof (cases "fatal (iteration cfg b s)")
  case True
  then show ?thesis by simp
next
  case False
  obtain acc where a: "block_spec cfg b s acc"
    using iteration_log by blast
  note d = block_specD [OF a]
  show ?thesis
  proof (cases "acc = []")
    case True
    with d(5) assms(3) have "meterID (state_of (iteration cfg b s)) \<noteq> {}" by simp
    with d(11) [OF assms(2) False] show ?thesis by simp
  next
    case ne: False
    show ?thesis
    proof (cases "meterID (state_of (iteration cfg b s)) = {}")
      case True
      with d(11) [OF assms(2) False] assms(1) ne d(9) [OF ne _ False] show ?thesis by auto
    next
      case False
      with d(11) [OF assms(2) \<open>\<not> fatal (iteration cfg b s)\<close>] show ?thesis by simp
    qed
  qed
qed

lemma loop_single:
  assumes "single cfg" and "\<forall>b \<in> set bs. sel b = SelDefault" and "meterID s \<noteq> {}"
  shows "(\<forall>s'. loop cfg s bs = Continue s' \<longrightarrow> meterID s' \<noteq> {})
       \<and> (\<forall>r s'. loop cfg s bs = Done (Returned r) s' \<longrightarrow>
             r = SingleDone \<and> meterID s' = {}
             \<and> (\<exists>bs1 b bs2 s1. bs = bs1 @ b # bs2 \<and> loop cfg s bs1 = Continue s1
                   \<and> meterID s1 \<noteq> {}
                   \<and> iteration cfg b s1 = Done (Returned SingleDone) s'
                   \<and> (sampleFilename cfg \<noteq> DevNull \<longrightarrow> sampleFile s' = sampleFile s1 @ IQ b)))"
  using assms(2,3)
proof (induction bs arbitrary: s)
  case Nil
  then show ?case by simp
next
  case (Cons b bs)
  from Cons.prems have sel: "sel b = SelDefault" and rest: "\<forall>b \<in> set bs. sel b = SelDefault"
    by simp_all
  from iteration_single [OF assms(1) sel Cons.prems(2)]
  consider (f) "fatal (iteration cfg b s)"
    | (c) "iteration cfg b s = Continue (state_of (iteration cfg b s))"
          "meterID (state_of (iteration cfg b s)) \<noteq> {}"
    | (d) "iteration cfg b s = Done (Returned SingleDone) (state_of (iteration cfg b s))"
          "meterID (state_of (iteration cfg b s)) = {}"
          "sampleFilename cfg \<noteq> DevNull \<longrightarrow>
             sampleFile (state_of (iteration cfg b s)) = sampleFile s @ IQ b"
    by blast
  then show ?case
  proof cases
    case f
    then obtain e s1 where "iteration cfg b s = Done (Fatal e) s1"
      by (cases "iteration cfg b s" rule: fatal.cases) simp_all
    then show ?thesis by simp
  next
    case c
    let ?s1 = "state_of (iteration cfg b s)"
    have l: "loop cfg s (b # bs) = loop cfg ?s1 bs"
      using c(1) by (metis loop.simps(2) step.simps(5))
    note IH = Cons.IH [OF rest c(2)]
    show ?thesis
    proof (intro conjI allI impI)
      fix s' assume "loop cfg s (b # bs) = Continue s'"
      with l IH show "meterID s' \<noteq> {}" by simp
    next
      fix r s' assume "loop cfg s (b # bs) = Done (Returned r) s'"
      with l have e: "loop cfg ?s1 bs = Done (Returned r) s'" by simp
      with IH show "r = SingleDone" and "meterID s' = {}" by blast+
      from e IH obtain bs1 b' bs2 s1 where x:
        "bs = bs1 @ b' # bs2" "loop cfg ?s1 bs1 = Continue s1" "meterID s1 \<noteq> {}"
        "iteration cfg b' s1 = Done (Returned SingleDone) s'"
        "sampleFilename cfg \<noteq> DevNull \<longrightarrow> sampleFile s' = sampleFile s1 @ IQ b'"
        by blast
      have "loop cfg s (b # bs1) = Continue s1"
        using c(1) x(2) by (metis loop.simps(2) step.simps(5))
      with x show "\<exists>bs1 b' bs2 s1. b # bs = bs1 @ b' # bs2 \<and> loop cfg s bs1 = Continue s1
                   \<and> meterID s1 \<noteq> {}
                   \<and> iteration cfg b' s1 = Done (Returned SingleDone) s'
                   \<and> (sampleFilename cfg \<noteq> DevNull \<longrightarrow> sampleFile s' = sampleFile s1 @ IQ b')"
        by (intro exI [of _ "b # bs1"] exI [of _ b'] exI [of _ bs2] exI [of _ s1]) simp
    qed
  next
    case d
    let ?s1 = "state_of (iteration cfg b s)"
    have l: "loop cfg s (b # bs) = Done (Returned SingleDone) ?s1"
      using d(1) by (metis loop.simps(2) step.simps(6))
    show ?thesis
    proof (intro conjI allI impI)
      fix s' assume "loop cfg s (b # bs) = Continue s'"
      with l show "meterID s' \<noteq> {}" by simp
    next
      fix r s' assume "loop cfg s (b # bs) = Done (Returned r) s'"
      with l have e: "r = SingleDone" "s' = ?s1" by simp_all
      with d show "r = SingleDone" and "meterID s' = {}" by simp_all
      from e d Cons.prems(2)
      show "\<exists>bs1 b' bs2 s1. b # bs = bs1 @ b' # bs2 \<and> loop cfg s bs1 = Continue s1
                   \<and> meterID s1 \<noteq> {}
                   \<and> iteration cfg b' s1 = Done (Returned SingleDone) s'
                   \<and> (sampleFilename cfg \<noteq> DevNull \<longrightarrow> sampleFile s' = sampleFile s1 @ IQ b')"
        by (intro exI [of _ "[]"] exI [of _ b] exI [of _ bs] exI [of _ s]) simp
    qed
  qed
qed


lemma loop_snoc:
  "loop cfg s bs1 = Continue s1 \<Longrightarrow> loop cfg s (bs1 @ b # bs2) = loop cfg s1 (b # bs2)"
  by (simp add: loop_append)

lemma loop_one_Continue:
  "iteration cfg b s = Continue s' \<Longrightarrow> loop cfg s [b] = Continue s'"
  by simp

lemma loop_Cons_Done:
  "iteration cfg b s = Done e s' \<Longrightarrow> loop cfg s (b # bs) = Done e s'"
  by simp

subsection \<open>The calls of main\<close>

lemma NewReceiver_calls: "NewReceiver cfg h s = (ops, x) \<Longrightarrow> DeviceClose \<notin> set ops"
  by (auto simp: NewReceiver_def split: if_splits prod.splits)

lemma Run_calls: "Run cfg s bs = (ops, x) \<Longrightarrow> DeviceClose \<notin> set ops"
  by (auto simp: Run_def split: step.splits ending.splits)

section \<open>The shutdown sequence\<close>

text \<open>
  C1. Whenever \<^verbatim>\<open>Run\<close> returns (on an interrupt, on the time limit, or in single mode once
  the identifier set is empty), \<^verbatim>\<open>main\<close> ends with the calls of its deferred function in
  this order: the log file is closed, the sample file is closed, the producer is cancelled,
  and then, if the cancellation returned no error, the device is closed and the program
  exits with status 0; if it returned an error the program exits with status 1 and the
  device is not closed. In every run, whatever the inputs, a call that closes the device
  comes directly after the return of the cancellation, which comes after the two files
  were closed.
\<close>

theorem C1_shutdown_order_when_Run_returns:
  "(\<not> version cfg \<and> hf cfg s = None \<and> NewReceiver cfg h s = (ops, Inr s1)
      \<and> loop cfg s1 bs = Done (Returned r) s2 \<longrightarrow>
        main hf cfg h bs s =
          (ops @ [ReadAsync, PipeClose, PipeClose, LogFileClose, SampleFileClose, CancelAsync]
             @ (if cancel_err h then [Exit 1] else [DeviceClose, Exit 0]), s2))
   \<and> (DeviceClose \<in> set (fst (main hf cfg h bs s)) \<longrightarrow>
        \<not> cancel_err h
        \<and> (\<exists>pre. fst (main hf cfg h bs s)
                    = pre @ [LogFileClose, SampleFileClose, CancelAsync, DeviceClose, Exit 0]))"
proof (intro conjI impI)
  assume "\<not> version cfg \<and> hf cfg s = None \<and> NewReceiver cfg h s = (ops, Inr s1)
      \<and> loop cfg s1 bs = Done (Returned r) s2"
  then show "main hf cfg h bs s =
          (ops @ [ReadAsync, PipeClose, PipeClose, LogFileClose, SampleFileClose, CancelAsync]
             @ (if cancel_err h then [Exit 1] else [DeviceClose, Exit 0]), s2)"
    by (simp add: main_def Run_def deferred_def)
next
  assume d: "DeviceClose \<in> set (fst (main hf cfg h bs s))"
  from d show "\<not> cancel_err h"
    by (auto simp: main_def deferred_def
        dest: NewReceiver_calls Run_calls
        split: if_splits option.splits prod.splits sum.splits step.splits ending.splits)
  from d show "\<exists>pre. fst (main hf cfg h bs s)
                    = pre @ [LogFileClose, SampleFileClose, CancelAsync, DeviceClose, Exit 0]"
    by (auto simp: main_def deferred_def
        dest: NewReceiver_calls Run_calls
        split: if_splits option.splits prod.splits sum.splits step.splits ending.splits)
qed

text \<open>A run that reads one empty block and is then interrupted.\<close>

theorem C1_shutdown_order_witness:
  "\<not> version cfg_single
   \<and> flags_ok cfg_single start = None
   \<and> NewReceiver cfg_single hw_ok start
       = ([RtlsdrOpen, SetCenterFreq, SetSampleRate, SetTunerGainMode False, ResetBuffer],
          Inr (start\<lparr>fc := [MeterIDFilter]\<rparr>))
   \<and> loop cfg_single (start\<lparr>fc := [MeterIDFilter]\<rparr>)
         [block_of [], (block_of [])\<lparr>sel := SelSigint\<rparr>]
       = Done (Returned Interrupted) (start\<lparr>fc := [MeterIDFilter]\<rparr>)
   \<and> main flags_ok cfg_single hw_ok [block_of [], (block_of [])\<lparr>sel := SelSigint\<rparr>] start
       = ([RtlsdrOpen, SetCenterFreq, SetSampleRate, SetTunerGainMode False, ResetBuffer,
           ReadAsync, PipeClose, PipeClose,
           LogFileClose, SampleFileClose, CancelAsync, DeviceClose, Exit 0],
          start\<lparr>fc := [MeterIDFilter]\<rparr>)
   \<and> DeviceClose \<in> set (fst (main flags_ok cfg_single hw_ok
                                  [block_of [], (block_of [])\<lparr>sel := SelSigint\<rparr>] start))
   \<and> \<not> cancel_err hw_ok"
  using C1_shutdown_order_when_Run_returns [of cfg_single flags_ok start hw_ok
      "[RtlsdrOpen, SetCenterFreq, SetSampleRate, SetTunerGainMode False, ResetBuffer]"
      "start\<lparr>fc := [MeterIDFilter]\<rparr>" "[block_of [], (block_of [])\<lparr>sel := SelSigint\<rparr>]"
      Interrupted "start\<lparr>fc := [MeterIDFilter]\<rparr>"]
  by (simp add: run_defs)

text \<open>
  On a fatal error during the run the shutdown sequence does not execute: after a short
  block read, after a failed write of the sample window, and after a failed encoding of a
  log record, the program exits with status 1 and neither file is closed, the producer is
  not cancelled and the device is not closed.
\<close>

theorem C1_fatal_error_skips_shutdown:
  "main flags_ok cfg_single hw_ok [(block_of [])\<lparr>read_err := True\<rparr>] start
     = ([RtlsdrOpen, SetCenterFreq, SetSampleRate, SetTunerGainMode False, ResetBuffer,
         ReadAsync, Exit 1],
        start\<lparr>fc := [MeterIDFilter]\<rparr>)
   \<and> main flags_ok cfg_single hw_ok [(block_of [heard m42 5])\<lparr>write_err := Some 2\<rparr>] start
     = ([RtlsdrOpen, SetCenterFreq, SetSampleRate, SetTunerGainMode False, ResetBuffer,
         ReadAsync, Exit 1],
        start\<lparr>fc := [MeterIDFilter], meterID := {},
              logFile := [Rec (log_message cfg_single start (heard m42 5))],
              sampleFile := [1, 2]\<rparr>)
   \<and> main flags_ok cfg_single hw_ok [block_of [(heard m42 5)\<lparr>encode_err := True\<rparr>]] start
     = ([RtlsdrOpen, SetCenterFreq, SetSampleRate, SetTunerGainMode False, ResetBuffer,
         ReadAsync, Exit 1],
        start\<lparr>fc := [MeterIDFilter]\<rparr>)"
  by (simp add: run_defs)

section \<open>Single mode without identifiers\<close>

text \<open>
  C2. For the single mode requested with no identifier configured, \<^verbatim>\<open>NewReceiver\<close> and
  \<^verbatim>\<open>Run\<close> have no check: when \<^verbatim>\<open>HandleFlags\<close> returns and the device answers without
  error, \<^verbatim>\<open>main\<close> opens the device, sets it up and starts the producer, and the state it
  leaves is that of the loop. In the loop, with the identifier map empty, an iteration
  whose block is read and in which no call fails logs the first packet that passes the
  filter chain and nothing else, appends the sample window if archiving is on, and
  returns; when no packet of the block passes it logs nothing and goes on to the next
  block.
\<close>

theorem C2_startup_has_no_check_of_single_mode_without_identifiers:
  fixes cfg :: "'fs config"
  assumes "single cfg" and "meterID s = {}" and "\<not> version cfg" and "hf cfg s = None"
    and "\<not> parser_err h" and "\<not> open_err h" and "\<not> freq_err h" and "\<not> rate_err h"
    and "\<not> gain_err h"
  shows "(\<exists>g chain rest.
            NewReceiver cfg h s
              = ([RtlsdrOpen, SetCenterFreq, SetSampleRate, SetTunerGainMode g, ResetBuffer],
                 Inr (s\<lparr>fc := chain\<rparr>))
            \<and> fst (main hf cfg h bs s)
                = [RtlsdrOpen, SetCenterFreq, SetSampleRate, SetTunerGainMode g, ResetBuffer,
                   ReadAsync] @ rest
            \<and> snd (main hf cfg h bs s) = state_of (loop cfg (s\<lparr>fc := chain\<rparr>) bs))
       \<and> (\<forall>s1 b.
            meterID s1 = {} \<and> sel b = SelDefault \<and> \<not> read_err b \<and> write_err b = None
            \<and> (\<forall>c \<in> set (pkts b). \<not> encode_err c) \<longrightarrow>
              logFile (state_of (iteration cfg b s1))
                = logFile s1 @ logged cfg s1 (take 1 (passing cfg (fc s1) (filt s1) {} (pkts b)))
              \<and> meterID (state_of (iteration cfg b s1)) = {}
              \<and> sampleFile (state_of (iteration cfg b s1))
                  = (if passing cfg (fc s1) (filt s1) {} (pkts b) \<noteq> []
                        \<and> sampleFilename cfg \<noteq> DevNull
                     then sampleFile s1 @ IQ b else sampleFile s1)
              \<and> iteration cfg b s1
                  = (if passing cfg (fc s1) (filt s1) {} (pkts b) = []
                     then Continue (state_of (iteration cfg b s1))
                     else Done (Returned SingleDone) (state_of (iteration cfg b s1))))"
proof (intro conjI)
  obtain g chain where v: "foldl visit (False, fc s) (visited cfg) = (g, chain)"
    by (cases "foldl visit (False, fc s) (visited cfg)")
  with assms(5-9) have n: "NewReceiver cfg h s
      = ([RtlsdrOpen, SetCenterFreq, SetSampleRate, SetTunerGainMode g, ResetBuffer],
         Inr (s\<lparr>fc := chain\<rparr>))"
    by (simp add: NewReceiver_def)
  obtain ops r where run: "Run cfg (s\<lparr>fc := chain\<rparr>) bs = (ReadAsync # ops, r)"
      and st: "state_of r = state_of (loop cfg (s\<lparr>fc := chain\<rparr>) bs)"
    by (cases "loop cfg (s\<lparr>fc := chain\<rparr>) bs" rule: fatal.cases) (simp_all add: Run_def)
  have "\<exists>rest. fst (main hf cfg h bs s)
                = [RtlsdrOpen, SetCenterFreq, SetSampleRate, SetTunerGainMode g, ResetBuffer,
                   ReadAsync] @ rest
            \<and> snd (main hf cfg h bs s) = state_of (loop cfg (s\<lparr>fc := chain\<rparr>) bs)"
    using assms(3,4) n run st
    by (cases r rule: fatal.cases) (simp_all add: main_def)
  with n show "\<exists>g chain rest.
            NewReceiver cfg h s
              = ([RtlsdrOpen, SetCenterFreq, SetSampleRate, SetTunerGainMode g, ResetBuffer],
                 Inr (s\<lparr>fc := chain\<rparr>))
            \<and> fst (main hf cfg h bs s)
                = [RtlsdrOpen, SetCenterFreq, SetSampleRate, SetTunerGainMode g, ResetBuffer,
                   ReadAsync] @ rest
            \<and> snd (main hf cfg h bs s) = state_of (loop cfg (s\<lparr>fc := chain\<rparr>) bs)"
    by blast
next
  show "\<forall>s1 b.
            meterID s1 = {} \<and> sel b = SelDefault \<and> \<not> read_err b \<and> write_err b = None
            \<and> (\<forall>c \<in> set (pkts b). \<not> encode_err c) \<longrightarrow>
              logFile (state_of (iteration cfg b s1))
                = logFile s1 @ logged cfg s1 (take 1 (passing cfg (fc s1) (filt s1) {} (pkts b)))
              \<and> meterID (state_of (iteration cfg b s1)) = {}
              \<and> sampleFile (state_of (iteration cfg b s1))
                  = (if passing cfg (fc s1) (filt s1) {} (pkts b) \<noteq> []
                        \<and> sampleFilename cfg \<noteq> DevNull
                     then sampleFile s1 @ IQ b else sampleFile s1)
              \<and> iteration cfg b s1
                  = (if passing cfg (fc s1) (filt s1) {} (pkts b) = []
                     then Continue (state_of (iteration cfg b s1))
                     else Done (Returned SingleDone) (state_of (iteration cfg b s1)))"
  proof (intro allI impI)
    fix s1 :: "'fs world" and b :: block_in
    assume h: "meterID s1 = {} \<and> sel b = SelDefault \<and> \<not> read_err b \<and> write_err b = None
            \<and> (\<forall>c \<in> set (pkts b). \<not> encode_err c)"
    then have sel: "sel b = SelDefault" and rd: "\<not> read_err b"
      and en: "\<forall>c \<in> set (pkts b). \<not> encode_err c" and wr: "write_err b = None"
      and em: "meterID s1 = {}"
      by simp_all
    let ?P = "passing cfg (fc s1) (filt s1) {} (pkts b)"
    have acc: "block_logged cfg s1 b = take 1 ?P"
      using assms(1) em by (simp add: block_logged_def until_done_empty)
    have ne: "take 1 ?P \<noteq> [] \<longleftrightarrow> ?P \<noteq> []"
      by (cases ?P) simp_all
    note x = iteration_exact [OF sel rd en, of cfg s1]
    from x(1) acc have 1: "logFile (state_of (iteration cfg b s1)) = logFile s1 @ logged cfg s1 (take 1 ?P)"
      by simp
    from x(2) assms(1) em have 2: "meterID (state_of (iteration cfg b s1)) = {}"
      by simp
    from x(3) acc ne wr have 3: "sampleFile (state_of (iteration cfg b s1))
                  = (if ?P \<noteq> [] \<and> sampleFilename cfg \<noteq> DevNull
                     then sampleFile s1 @ IQ b else sampleFile s1)"
      by simp
    have 4: "iteration cfg b s1
                  = (if ?P = [] then Continue (state_of (iteration cfg b s1))
                     else Done (Returned SingleDone) (state_of (iteration cfg b s1)))"
    proof (cases "?P = []")
      case True
      with acc have "block_logged cfg s1 b = []" by simp
      with x(4) True show ?thesis by simp
    next
      case False
      with acc ne have "block_logged cfg s1 b \<noteq> []" by simp
      with x(4) False wr assms(1) em show ?thesis by simp
    qed
    from 1 2 3 4 show "logFile (state_of (iteration cfg b s1))
                = logFile s1 @ logged cfg s1 (take 1 ?P)
              \<and> meterID (state_of (iteration cfg b s1)) = {}
              \<and> sampleFile (state_of (iteration cfg b s1))
                  = (if ?P \<noteq> [] \<and> sampleFilename cfg \<noteq> DevNull
                     then sampleFile s1 @ IQ b else sampleFile s1)
              \<and> iteration cfg b s1
                  = (if ?P = [] then Continue (state_of (iteration cfg b s1))
                     else Done (Returned SingleDone) (state_of (iteration cfg b s1)))"
      by blast
  qed
qed

text \<open>
  The receiver started with \<^verbatim>\<open>-single\<close> alone: the device is opened, a block without a packet
  is passed over, and of a block with two packets the first is logged and the run returns.
\<close>

theorem C2_startup_has_no_check_witness:
  "single cfg_oneshot
   \<and> meterID idle = {}
   \<and> \<not> version cfg_oneshot
   \<and> flags_ok cfg_oneshot idle = None
   \<and> \<not> parser_err hw_ok \<and> \<not> open_err hw_ok \<and> \<not> freq_err hw_ok \<and> \<not> rate_err hw_ok
   \<and> \<not> gain_err hw_ok
   \<and> NewReceiver cfg_oneshot hw_ok idle
       = ([RtlsdrOpen, SetCenterFreq, SetSampleRate, SetTunerGainMode False, ResetBuffer],
          Inr idle)
   \<and> sel (block_of [heard m43 5, heard m42 6]) = SelDefault
   \<and> \<not> read_err (block_of [heard m43 5, heard m42 6])
   \<and> write_err (block_of [heard m43 5, heard m42 6]) = None
   \<and> passing cfg_oneshot (fc idle) (filt idle) {} (pkts (block_of [heard m43 5, heard m42 6]))
       = [heard m43 5, heard m42 6]
   \<and> iteration cfg_oneshot (block_of []) idle = Continue idle
   \<and> iteration cfg_oneshot (block_of [heard m43 5, heard m42 6]) idle
       = Done (Returned SingleDone)
           (idle\<lparr>logFile := [Rec (log_message cfg_oneshot idle (heard m43 5))],
                 sampleFile := [1, 2, 3, 4]\<rparr>)"
  using C2_startup_has_no_check_of_single_mode_without_identifiers [of cfg_oneshot idle flags_ok hw_ok "[block_of [heard m43 5, heard m42 6]]"]
  by (simp add: run_defs)

text \<open>
  Single mode with no identifier configured does not end the program before the
  device is opened: with a \<^verbatim>\<open>HandleFlags\<close> that returns, the device is opened, the loop is
  entered and reads two blocks, and the run ends with the shutdown sequence and status 0.
\<close>

theorem C2_single_without_identifiers_enters_the_loop:
  "single cfg_oneshot
   \<and> meterID idle = {}
   \<and> main flags_ok cfg_oneshot hw_ok [block_of [], block_of [heard m42 5, heard m43 6]] idle
       = ([RtlsdrOpen, SetCenterFreq, SetSampleRate, SetTunerGainMode False, ResetBuffer,
           ReadAsync, PipeClose, PipeClose,
           LogFileClose, SampleFileClose, CancelAsync, DeviceClose, Exit 0],
          idle\<lparr>logFile := [Rec (log_message cfg_oneshot idle (heard m42 5))],
                sampleFile := [1, 2, 3, 4]\<rparr>)"
  by (simp add: run_defs)

section \<open>Log records and the archive, block by block\<close>

text \<open>
  C3. In every iteration the packets of the block are put to the filter chain one by one,
  in order, and a packet that passes is logged with one record of its own: the records
  written are those of a prefix \<open>acc\<close> of the packets that pass. The sample window is
  appended to the archive at most once in the iteration (after a failed write, a part of
  it), it is not appended when no packet was logged, and it is appended once when a packet
  was logged, archiving is on and no call failed. When the block is read and no encoding
  fails, the records written are exactly those of the packets that pass, all of them,
  except that in single mode the list ends with the first packet logged while the
  identifier set is empty: the packets after it are neither put to the chain nor logged.
\<close>

theorem C3_records_of_a_block_and_one_archive_write:
  "(\<exists>acc new.
      prefix acc (passing cfg (fc s) (filt s) (meterID s) (pkts b))
      \<and> logFile (state_of (iteration cfg b s)) = logFile s @ new
      \<and> recs new = map (log_message cfg s) acc
      \<and> (sampleFile (state_of (iteration cfg b s)) = sampleFile s
         \<or> sampleFile (state_of (iteration cfg b s)) = sampleFile s @ IQ b
         \<or> (\<exists>n. write_err b = Some n
               \<and> sampleFile (state_of (iteration cfg b s)) = sampleFile s @ take n (IQ b)))
      \<and> (acc = [] \<longrightarrow> sampleFile (state_of (iteration cfg b s)) = sampleFile s)
      \<and> (acc \<noteq> [] \<and> sampleFilename cfg \<noteq> DevNull \<and> \<not> fatal (iteration cfg b s) \<longrightarrow>
           sampleFile (state_of (iteration cfg b s)) = sampleFile s @ IQ b))
   \<and> (sel b = SelDefault \<and> \<not> read_err b \<and> (\<forall>c \<in> set (pkts b). \<not> encode_err c) \<longrightarrow>
        (\<exists>new. logFile (state_of (iteration cfg b s)) = logFile s @ new
           \<and> recs new =
               map (log_message cfg s)
                 (until_done (single cfg) (meterID s)
                    (passing cfg (fc s) (filt s) (meterID s) (pkts b)))))"
proof (intro conjI impI)
  obtain acc where a: "block_spec cfg b s acc"
    using iteration_log by blast
  note d = block_specD [OF a]
  show "\<exists>acc new.
      prefix acc (passing cfg (fc s) (filt s) (meterID s) (pkts b))
      \<and> logFile (state_of (iteration cfg b s)) = logFile s @ new
      \<and> recs new = map (log_message cfg s) acc
      \<and> (sampleFile (state_of (iteration cfg b s)) = sampleFile s
         \<or> sampleFile (state_of (iteration cfg b s)) = sampleFile s @ IQ b
         \<or> (\<exists>n. write_err b = Some n
               \<and> sampleFile (state_of (iteration cfg b s)) = sampleFile s @ take n (IQ b)))
      \<and> (acc = [] \<longrightarrow> sampleFile (state_of (iteration cfg b s)) = sampleFile s)
      \<and> (acc \<noteq> [] \<and> sampleFilename cfg \<noteq> DevNull \<and> \<not> fatal (iteration cfg b s) \<longrightarrow>
           sampleFile (state_of (iteration cfg b s)) = sampleFile s @ IQ b)"
  proof (intro exI [of _ acc] exI [of _ "logged cfg s acc"] conjI impI)
    show "prefix acc (passing cfg (fc s) (filt s) (meterID s) (pkts b))"
      by (rule d(1))
    show "logFile (state_of (iteration cfg b s)) = logFile s @ logged cfg s acc"
      by (rule d(2))
    show "recs (logged cfg s acc) = map (log_message cfg s) acc"
      by simp
    show "sampleFile (state_of (iteration cfg b s)) = sampleFile s
        \<or> sampleFile (state_of (iteration cfg b s)) = sampleFile s @ IQ b
        \<or> (\<exists>n. write_err b = Some n
              \<and> sampleFile (state_of (iteration cfg b s)) = sampleFile s @ take n (IQ b))"
      by (rule d(7))
    show "sampleFile (state_of (iteration cfg b s)) = sampleFile s" if "acc = []"
      using that by (rule d(4))
    show "sampleFile (state_of (iteration cfg b s)) = sampleFile s @ IQ b"
      if "acc \<noteq> [] \<and> sampleFilename cfg \<noteq> DevNull \<and> \<not> fatal (iteration cfg b s)"
      using that d(9) by simp
  qed
next
  assume h: "sel b = SelDefault \<and> \<not> read_err b \<and> (\<forall>c \<in> set (pkts b). \<not> encode_err c)"
  then have "logFile (state_of (iteration cfg b s)) = logFile s @ logged cfg s (block_logged cfg s b)"
    by (intro iteration_exact(1)) simp_all
  moreover have "recs (logged cfg s (block_logged cfg s b)) =
      map (log_message cfg s)
        (until_done (single cfg) (meterID s) (passing cfg (fc s) (filt s) (meterID s) (pkts b)))"
    by (simp add: block_logged_def)
  ultimately show "\<exists>new. logFile (state_of (iteration cfg b s)) = logFile s @ new
           \<and> recs new =
               map (log_message cfg s)
                 (until_done (single cfg) (meterID s)
                    (passing cfg (fc s) (filt s) (meterID s) (pkts b)))"
    by blast
qed

text \<open>
  The identifier filter on 42, two packets with the identifiers 42 and 43 in one block:
  one record, for 42, and the sample window once. In single mode with 42 and 43 awaited,
  a block with the packets 42, 44 and 43: two records, for 42 and 43, and the sample
  window once.
\<close>

theorem C3_records_of_a_block_witness:
  "sel (block_of [heard m42 5, heard m43 6]) = SelDefault
   \<and> \<not> read_err (block_of [heard m42 5, heard m43 6])
   \<and> \<not> fatal (iteration cfg_filter (block_of [heard m42 5, heard m43 6]) tuned)
   \<and> sampleFilename cfg_filter \<noteq> DevNull
   \<and> passing cfg_filter (fc tuned) (filt tuned) (meterID tuned)
         (pkts (block_of [heard m42 5, heard m43 6]))
       = [heard m42 5]
   \<and> recs (logFile (state_of (iteration cfg_filter (block_of [heard m42 5, heard m43 6]) tuned)))
       = [log_message cfg_filter tuned (heard m42 5)]
   \<and> sampleFile (state_of (iteration cfg_filter (block_of [heard m42 5, heard m43 6]) tuned))
       = sampleFile tuned @ [1, 2, 3, 4]
   \<and> until_done (single cfg_single) (meterID tuned2)
         (passing cfg_single (fc tuned2) (filt tuned2) (meterID tuned2)
            (pkts (block_of [heard m42 5, heard m44 6, heard m43 7])))
       = [heard m42 5, heard m43 7]
   \<and> recs (logFile (state_of
         (iteration cfg_single (block_of [heard m42 5, heard m44 6, heard m43 7]) tuned2)))
       = [log_message cfg_single tuned2 (heard m42 5), log_message cfg_single tuned2 (heard m43 7)]
   \<and> sampleFile (state_of
         (iteration cfg_single (block_of [heard m42 5, heard m44 6, heard m43 7]) tuned2))
       = sampleFile tuned2 @ [1, 2, 3, 4]"
  using C3_records_of_a_block_and_one_archive_write [of cfg_filter tuned "block_of [heard m42 5, heard m43 6]"]
    C3_records_of_a_block_and_one_archive_write [of cfg_single tuned2 "block_of [heard m42 5, heard m44 6, heard m43 7]"]
  by (simp add: run_defs insert_Diff_if)

text \<open>
  Not every packet of a block is put to the chain and logged. In single mode with no
  filter in the chain and no identifier awaited, a block with the packets 42 and 43: both
  pass the chain, but the loop over the packets is left after the record of 42, and 43 has
  no record.
\<close>

theorem C3_single_mode_leaves_packets_out:
  "single cfg_oneshot
   \<and> fc idle = []
   \<and> meterID idle = {}
   \<and> passing cfg_oneshot (fc idle) (filt idle) (meterID idle) [heard m42 5, heard m43 6]
       = [heard m42 5, heard m43 6]
   \<and> iteration cfg_oneshot (block_of [heard m42 5, heard m43 6]) idle
       = Done (Returned SingleDone)
           (idle\<lparr>logFile := [Rec (log_message cfg_oneshot idle (heard m42 5))],
                 sampleFile := [1, 2, 3, 4]\<rparr>)"
  by (simp add: run_defs)

section \<open>The end of the single mode\<close>

text \<open>
  C4. In single mode, started with a non-empty identifier set, and as long as the select
  statement falls through to the read of a block (no interrupt, no time limit). An
  iteration reached by the loop begins with a non-empty set; when its block is read and
  no call fails, it logs the packets of \<open>block_logged\<close>, removes exactly their identifiers
  from the set, appends the sample window if one was logged and archiving is on, and then
  the loop returns in this iteration if the set so left is empty, and goes on to the next
  iteration if it is not. Whatever fails, the loop ends in the very iteration that leaves
  the set empty, by the return of the single mode or by a fatal error of that iteration;
  as long as the loop goes on the set is not empty; and when the loop returns, it returns
  from an iteration that began with a non-empty set and ended with the empty one, after
  its sample window, if archiving is on, was appended to the archive.
\<close>

theorem C4_single_mode_returns_in_the_iteration_that_empties_the_set:
  assumes "single cfg" and "meterID s \<noteq> {}" and "\<forall>b \<in> set bs. sel b = SelDefault"
  shows "(\<forall>bs1 b bs2 s1.
            bs = bs1 @ b # bs2 \<and> loop cfg s bs1 = Continue s1 \<and> \<not> read_err b
            \<and> write_err b = None \<and> (\<forall>c \<in> set (pkts b). \<not> encode_err c) \<longrightarrow>
              meterID s1 \<noteq> {}
              \<and> logFile (state_of (iteration cfg b s1))
                  = logFile s1 @ logged cfg s1 (block_logged cfg s1 b)
              \<and> meterID (state_of (iteration cfg b s1))
                  = meterID s1 - ids_of (block_logged cfg s1 b)
              \<and> sampleFile (state_of (iteration cfg b s1))
                  = (if block_logged cfg s1 b \<noteq> [] \<and> sampleFilename cfg \<noteq> DevNull
                     then sampleFile s1 @ IQ b else sampleFile s1)
              \<and> (if meterID s1 - ids_of (block_logged cfg s1 b) = {}
                  then loop cfg s bs = Done (Returned SingleDone) (state_of (iteration cfg b s1))
                  else loop cfg s (bs1 @ [b]) = Continue (state_of (iteration cfg b s1))))
       \<and> (\<forall>bs1 b bs2 s1.
            bs = bs1 @ b # bs2 \<and> loop cfg s bs1 = Continue s1
            \<and> meterID (state_of (iteration cfg b s1)) = {} \<longrightarrow>
              loop cfg s bs = iteration cfg b s1
              \<and> (fatal (iteration cfg b s1)
                  \<or> iteration cfg b s1 = Done (Returned SingleDone) (state_of (iteration cfg b s1))))
       \<and> (\<forall>s'. loop cfg s bs = Continue s' \<longrightarrow> meterID s' \<noteq> {})
       \<and> (\<forall>r s'. loop cfg s bs = Done (Returned r) s' \<longrightarrow>
             r = SingleDone \<and> meterID s' = {}
             \<and> (\<exists>bs1 b bs2 s1. bs = bs1 @ b # bs2 \<and> loop cfg s bs1 = Continue s1
                   \<and> meterID s1 \<noteq> {}
                   \<and> iteration cfg b s1 = Done (Returned SingleDone) s'
                   \<and> (sampleFilename cfg \<noteq> DevNull \<longrightarrow> sampleFile s' = sampleFile s1 @ IQ b)))"
proof (intro conjI)
  show "\<forall>bs1 b bs2 s1.
            bs = bs1 @ b # bs2 \<and> loop cfg s bs1 = Continue s1 \<and> \<not> read_err b
            \<and> write_err b = None \<and> (\<forall>c \<in> set (pkts b). \<not> encode_err c) \<longrightarrow>
              meterID s1 \<noteq> {}
              \<and> logFile (state_of (iteration cfg b s1))
                  = logFile s1 @ logged cfg s1 (block_logged cfg s1 b)
              \<and> meterID (state_of (iteration cfg b s1))
                  = meterID s1 - ids_of (block_logged cfg s1 b)
              \<and> sampleFile (state_of (iteration cfg b s1))
                  = (if block_logged cfg s1 b \<noteq> [] \<and> sampleFilename cfg \<noteq> DevNull
                     then sampleFile s1 @ IQ b else sampleFile s1)
              \<and> (if meterID s1 - ids_of (block_logged cfg s1 b) = {}
                  then loop cfg s bs = Done (Returned SingleDone) (state_of (iteration cfg b s1))
                  else loop cfg s (bs1 @ [b]) = Continue (state_of (iteration cfg b s1)))"
  proof (intro allI impI)
    fix bs1 b bs2 s1
    assume h: "bs = bs1 @ b # bs2 \<and> loop cfg s bs1 = Continue s1 \<and> \<not> read_err b
            \<and> write_err b = None \<and> (\<forall>c \<in> set (pkts b). \<not> encode_err c)"
    let ?acc = "block_logged cfg s1 b"
    let ?s2 = "state_of (iteration cfg b s1)"
    from h assms(3) have sel: "sel b = SelDefault" and pre: "\<forall>b \<in> set bs1. sel b = SelDefault"
      by simp_all
    from h have rd: "\<not> read_err b" and wr: "write_err b = None"
      and en: "\<forall>c \<in> set (pkts b). \<not> encode_err c" and run: "loop cfg s bs1 = Continue s1"
      and bs: "bs = bs1 @ b # bs2"
      by simp_all
    from loop_single [OF assms(1) pre assms(2)] run have ne: "meterID s1 \<noteq> {}" by blast
    note x = iteration_exact [OF sel rd en, of cfg s1]
    have l: "logFile ?s2 = logFile s1 @ logged cfg s1 ?acc"
      by (rule x(1))
    have m: "meterID ?s2 = meterID s1 - ids_of ?acc"
      using x(2) assms(1) by simp
    have f: "sampleFile ?s2 =
        (if ?acc \<noteq> [] \<and> sampleFilename cfg \<noteq> DevNull then sampleFile s1 @ IQ b else sampleFile s1)"
      using x(3) wr by simp
    have i: "iteration cfg b s1 =
        (if ?acc \<noteq> [] \<and> meterID s1 - ids_of ?acc = {} then Done (Returned SingleDone) ?s2
         else Continue ?s2)"
      using x(4) wr assms(1) by simp
    have e: "meterID s1 - ids_of ?acc = {} \<Longrightarrow> ?acc \<noteq> []"
      using ne by auto
    have w: "if meterID s1 - ids_of ?acc = {}
        then loop cfg s bs = Done (Returned SingleDone) ?s2
        else loop cfg s (bs1 @ [b]) = Continue ?s2"
    proof (cases "meterID s1 - ids_of ?acc = {}")
      case True
      with i e have "iteration cfg b s1 = Done (Returned SingleDone) ?s2" by simp
      then have "loop cfg s1 (b # bs2) = Done (Returned SingleDone) ?s2"
        by (rule loop_Cons_Done)
      with loop_snoc [OF run, of b bs2] bs True show ?thesis by simp
    next
      case False
      with i have "iteration cfg b s1 = Continue ?s2" by simp
      then have "loop cfg s1 [b] = Continue ?s2"
        by (rule loop_one_Continue)
      with loop_snoc [OF run, of b "[]"] False show ?thesis by simp
    qed
    from ne l m f w show "meterID s1 \<noteq> {}
              \<and> logFile ?s2 = logFile s1 @ logged cfg s1 ?acc
              \<and> meterID ?s2 = meterID s1 - ids_of ?acc
              \<and> sampleFile ?s2
                  = (if ?acc \<noteq> [] \<and> sampleFilename cfg \<noteq> DevNull
                     then sampleFile s1 @ IQ b else sampleFile s1)
              \<and> (if meterID s1 - ids_of ?acc = {}
                  then loop cfg s bs = Done (Returned SingleDone) ?s2
                  else loop cfg s (bs1 @ [b]) = Continue ?s2)"
      by blast
  qed
next
  show "\<forall>bs1 b bs2 s1.
            bs = bs1 @ b # bs2 \<and> loop cfg s bs1 = Continue s1
            \<and> meterID (state_of (iteration cfg b s1)) = {} \<longrightarrow>
              loop cfg s bs = iteration cfg b s1
              \<and> (fatal (iteration cfg b s1)
                  \<or> iteration cfg b s1 = Done (Returned SingleDone) (state_of (iteration cfg b s1)))"
  proof (intro allI impI)
    fix bs1 b bs2 s1
    assume h: "bs = bs1 @ b # bs2 \<and> loop cfg s bs1 = Continue s1
            \<and> meterID (state_of (iteration cfg b s1)) = {}"
    with assms(3) have sel: "sel b = SelDefault" and pre: "\<forall>b \<in> set bs1. sel b = SelDefault"
      by simp_all
    from loop_single [OF assms(1) pre assms(2)] h have ne: "meterID s1 \<noteq> {}" by blast
    from iteration_single [OF assms(1) sel ne] h
    have d: "fatal (iteration cfg b s1)
        \<or> iteration cfg b s1 = Done (Returned SingleDone) (state_of (iteration cfg b s1))"
      by blast
    then obtain e s2 where i: "iteration cfg b s1 = Done e s2"
      by (cases "iteration cfg b s1") auto
    from h have "loop cfg s bs = loop cfg s1 (b # bs2)"
      by (simp add: loop_append)
    with i have "loop cfg s bs = iteration cfg b s1" by simp
    with d show "loop cfg s bs = iteration cfg b s1
              \<and> (fatal (iteration cfg b s1)
                  \<or> iteration cfg b s1 = Done (Returned SingleDone) (state_of (iteration cfg b s1)))"
      by simp
  qed
qed (use loop_single [OF assms(1,3,2)] in blast)+

text \<open>
  The meters 42 and 43 are awaited. Five blocks: a packet of 42, no packet, a packet of
  another meter, a packet of 43, one more packet. After the first block 43 is still
  awaited and the loop goes on, through the second and the third as well; it returns in
  the fourth, with both records and both sample windows written; the fifth is not read.
\<close>

theorem C4_single_mode_returns_witness:
  "single cfg_single
   \<and> meterID tuned2 = {42, 43}
   \<and> map sel [block_of [heard m42 5], block_of [], block_of [heard m44 6],
               block_of [heard m43 7], block_of [heard m42 8]]
       = [SelDefault, SelDefault, SelDefault, SelDefault, SelDefault]
   \<and> block_logged cfg_single tuned2 (block_of [heard m42 5]) = [heard m42 5]
   \<and> loop cfg_single tuned2 [block_of [heard m42 5]]
       = Continue (tuned2\<lparr>meterID := {43},
                          logFile := [Rec (log_message cfg_single tuned2 (heard m42 5))],
                          sampleFile := sampleFile tuned2 @ [1, 2, 3, 4]\<rparr>)
   \<and> loop cfg_single tuned2 [block_of [heard m42 5], block_of [], block_of [heard m44 6]]
       = Continue (tuned2\<lparr>meterID := {43},
                          logFile := [Rec (log_message cfg_single tuned2 (heard m42 5))],
                          sampleFile := sampleFile tuned2 @ [1, 2, 3, 4]\<rparr>)
   \<and> loop cfg_single tuned2
         [block_of [heard m42 5], block_of [], block_of [heard m44 6],
          block_of [heard m43 7], block_of [heard m42 8]]
       = Done (Returned SingleDone)
           (tuned2\<lparr>meterID := {},
                   logFile := [Rec (log_message cfg_single tuned2 (heard m42 5)),
                               Rec ((log_message cfg_single tuned2 (heard m43 7))\<lparr>Offset := 12\<rparr>)],
                   sampleFile := sampleFile tuned2 @ [1, 2, 3, 4, 1, 2, 3, 4]\<rparr>)"
  using C4_single_mode_returns_in_the_iteration_that_empties_the_set [of cfg_single tuned2
      "[block_of [heard m42 5], block_of [], block_of [heard m44 6],
        block_of [heard m43 7], block_of [heard m42 8]]"]
  by (simp add: run_defs block_logged_def insert_Diff_if)

section \<open>Acceptance in single mode\<close>

text \<open>
  C5. When the single mode is active, a packet that passes the filter chain is accepted
  on that alone: the loop makes no test of its own of the packet's identifier against the
  identifier set. If the set is empty the record is written and the loop over the packets
  ends there. If the set is not empty the record is written, exactly the packet's
  identifier is removed from the set, and the loop goes on with the packets after it. For
  a block of one packet: the record is written and the set is left without that
  identifier, every other identifier staying. In every case the identifier is not in the
  set afterwards, and the set only shrinks.
\<close>

theorem C5_single_mode_accepts_what_passes_and_removes_its_identifier:
  assumes "single cfg"
    and "Match cfg (fc s) (filt s) (meterID s) (pkt c) = (True, fs)"
    and "\<not> encode_err c"
  shows "(meterID s = {} \<longrightarrow>
            range_pkts cfg (c # cs) pktFound s
              = Inr (True, s\<lparr>filt := fs, logFile := logFile s @ encode cfg (log_message cfg s c)\<rparr>))
       \<and> (meterID s \<noteq> {} \<longrightarrow>
            range_pkts cfg (c # cs) pktFound s
              = range_pkts cfg cs True
                  (s\<lparr>filt := fs, logFile := logFile s @ encode cfg (log_message cfg s c),
                     meterID := meterID s - {ucast (MeterID (pkt c))}\<rparr>))
       \<and> range_pkts cfg [c] pktFound s
            = Inr (True, s\<lparr>filt := fs, logFile := logFile s @ encode cfg (log_message cfg s c),
                            meterID := meterID s - {ucast (MeterID (pkt c))}\<rparr>)
       \<and> (\<exists>rest. logFile (pkts_state (range_pkts cfg (c # cs) pktFound s))
                  = logFile s @ encode cfg (log_message cfg s c) @ rest)
       \<and> ucast (MeterID (pkt c)) \<notin> meterID (pkts_state (range_pkts cfg (c # cs) pktFound s))
       \<and> meterID (pkts_state (range_pkts cfg (c # cs) pktFound s)) \<subseteq> meterID s"
proof -
  note step = range_pkts_accepted [OF assms(2,3)]
  have 1: "meterID s = {} \<longrightarrow>
            range_pkts cfg (c # cs) pktFound s
              = Inr (True, s\<lparr>filt := fs, logFile := logFile s @ encode cfg (log_message cfg s c)\<rparr>)"
    using assms(1) step [of cs pktFound] by (simp add: accept_def)
  have 2: "meterID s \<noteq> {} \<longrightarrow>
            range_pkts cfg (c # cs) pktFound s
              = range_pkts cfg cs True
                  (s\<lparr>filt := fs, logFile := logFile s @ encode cfg (log_message cfg s c),
                     meterID := meterID s - {ucast (MeterID (pkt c))}\<rparr>)"
    using assms(1) step [of cs pktFound] by (simp add: accept_def)
  have 3: "range_pkts cfg [c] pktFound s
            = Inr (True, s\<lparr>filt := fs, logFile := logFile s @ encode cfg (log_message cfg s c),
                            meterID := meterID s - {ucast (MeterID (pkt c))}\<rparr>)"
    using assms(1) step [of "[]" pktFound] by (simp add: accept_def)
  have 4: "(\<exists>rest. logFile (pkts_state (range_pkts cfg (c # cs) pktFound s))
                  = logFile s @ encode cfg (log_message cfg s c) @ rest)
       \<and> ucast (MeterID (pkt c)) \<notin> meterID (pkts_state (range_pkts cfg (c # cs) pktFound s))
       \<and> meterID (pkts_state (range_pkts cfg (c # cs) pktFound s)) \<subseteq> meterID s"
  proof (cases "meterID s = {}")
    case True
    with 1 show ?thesis by simp
  next
    case False
    let ?s3 = "s\<lparr>filt := fs, logFile := logFile s @ encode cfg (log_message cfg s c),
                     meterID := meterID s - {ucast (MeterID (pkt c))}\<rparr>"
    from False 2 have r: "range_pkts cfg (c # cs) pktFound s = range_pkts cfg cs True ?s3"
      by simp
    obtain acc where a: "pkts_spec cfg cs True ?s3 acc"
      using range_pkts_log by blast
    then have l: "logFile (pkts_state (range_pkts cfg cs True ?s3)) = logFile ?s3 @ logged cfg ?s3 acc"
      unfolding pkts_spec_def by blast
    have sub: "meterID (pkts_state (range_pkts cfg cs True ?s3)) \<subseteq> meterID ?s3"
      by (rule range_pkts_meterID)
    from r l sub show ?thesis by auto
  qed
  from 1 2 3 4 show ?thesis by blast
qed

text \<open>
  The meters 42 and 43 are awaited and a packet of 42 comes: it is logged and the set left
  is 43 alone. A second packet of 42 in the same block does not pass the chain.
\<close>

theorem C5_single_mode_accepts_witness:
  "single cfg_single
   \<and> Match cfg_single (fc tuned2) (filt tuned2) (meterID tuned2) (pkt (heard m42 5))
       = (True, filt tuned2)
   \<and> \<not> encode_err (heard m42 5)
   \<and> meterID tuned2 = {42, 43}
   \<and> range_pkts cfg_single [heard m42 5] False tuned2
       = Inr (True, tuned2\<lparr>logFile := [Rec (log_message cfg_single tuned2 (heard m42 5))],
                            meterID := {43}\<rparr>)
   \<and> range_pkts cfg_single [heard m42 5, heard m42 6] False tuned2
       = Inr (True, tuned2\<lparr>logFile := [Rec (log_message cfg_single tuned2 (heard m42 5))],
                            meterID := {43}\<rparr>)"
  using C5_single_mode_accepts_what_passes_and_removes_its_identifier [of cfg_single tuned2 "heard m42 5" "filt tuned2" "[heard m42 6]" False]
  by (simp add: run_defs insert_Diff_if)

text \<open>
  A packet is accepted in single mode without its identifier being in the identifier
  set: with no filter in the chain and the set empty, the packet 42 is logged.
\<close>

theorem C5_accepted_without_being_awaited:
  "single cfg_oneshot
   \<and> fc idle = []
   \<and> meterID idle = {}
   \<and> ucast (MeterID (pkt (heard m42 5))) \<notin> meterID idle
   \<and> range_pkts cfg_oneshot [heard m42 5] False idle
       = Inr (True, idle\<lparr>logFile := [Rec (log_message cfg_oneshot idle (heard m42 5))]\<rparr>)"
  by (simp add: run_defs)

section \<open>The fields of a log record\<close>

text \<open>
  C6. Every record logged in an iteration has as its \<^verbatim>\<open>Length\<close> the configured buffer
  length shifted left by one bit, that is twice the buffer length in the arithmetic of a
  Go \<^verbatim>\<open>int\<close>.
\<close>

theorem C6_Length_is_twice_the_buffer_length:
  "\<exists>new. logFile (state_of (iteration cfg b s)) = logFile s @ new
     \<and> (\<forall>m \<in> set (recs new).
          Length m = push_bit 1 (BufferLength cfg) \<and> Length m = 2 * BufferLength cfg)"
proof -
  obtain acc where a: "block_spec cfg b s acc"
    using iteration_log by blast
  have "\<forall>m \<in> set (recs (logged cfg s acc)).
          Length m = push_bit 1 (BufferLength cfg) \<and> Length m = 2 * BufferLength cfg"
    by (auto simp: log_message_def push_bit_eq_mult)
  with block_specD(2) [OF a] show ?thesis by blast
qed

theorem C6_Length_is_twice_the_buffer_length_witness:
  "recs (logFile (state_of (iteration cfg_single (block_of [heard m42 5]) tuned)))
     = [log_message cfg_single tuned (heard m42 5)]
   \<and> BufferLength cfg_single = 2048
   \<and> Length (log_message cfg_single tuned (heard m42 5)) = 2 * 2048"
  using C6_Length_is_twice_the_buffer_length [of cfg_single "block_of [heard m42 5]" tuned]
  by (simp add: run_defs)

text \<open>With a buffer length of 2048 the record logged has the length 4096, not 2048.\<close>

theorem C6_Length_is_not_the_buffer_length:
  "BufferLength cfg_single = 2048
   \<and> map Length (recs (logFile (state_of (iteration cfg_single (block_of [heard m42 5]) tuned))))
       = [4096]
   \<and> map Length (recs (logFile (state_of (iteration cfg_single (block_of [heard m42 5]) tuned))))
       \<noteq> [BufferLength cfg_single]"
  by (simp add: run_defs)

text \<open>
  C7. Every record logged in an iteration has as its \<^verbatim>\<open>Offset\<close> what \<^verbatim>\<open>Seek\<close> answered
  before the block's write: the position of the archive at the beginning of the
  iteration when the call succeeded, and 0 when it failed. The iteration changes the
  archive only behind that position, and when it appends the sample window (a packet was
  logged, archiving is on, no call failed) the window begins at that position.
\<close>

theorem C7_Offset_is_what_Seek_answers_before_the_write:
  "\<exists>acc new.
     set acc \<subseteq> set (pkts b)
     \<and> logFile (state_of (iteration cfg b s)) = logFile s @ new
     \<and> list_all2
          (\<lambda>m c. Message m = pkt c
                  \<and> Offset m = (if seek_err c then 0 else int (length (sampleFile s))))
          (recs new) acc
     \<and> ((\<forall>c \<in> set (pkts b). \<not> seek_err c) \<longrightarrow>
          (\<forall>m \<in> set (recs new). Offset m = int (length (sampleFile s))))
     \<and> (\<exists>w. sampleFile (state_of (iteration cfg b s)) = sampleFile s @ w)
     \<and> (acc \<noteq> [] \<and> sampleFilename cfg \<noteq> DevNull \<and> \<not> fatal (iteration cfg b s) \<longrightarrow>
          sampleFile (state_of (iteration cfg b s)) = sampleFile s @ IQ b)"
proof -
  obtain acc where a: "block_spec cfg b s acc"
    using iteration_log by blast
  note d = block_specD [OF a]
  have sub: "set acc \<subseteq> set (pkts b)"
    using d(1) passing_subset [of cfg "fc s" "filt s" "meterID s" "pkts b"]
    by (meson order_trans set_mono_prefix)
  show ?thesis
  proof (intro exI [of _ acc] exI [of _ "logged cfg s acc"] conjI impI)
    show "set acc \<subseteq> set (pkts b)"
      by (rule sub)
    show "logFile (state_of (iteration cfg b s)) = logFile s @ logged cfg s acc"
      by (rule d(2))
    show "list_all2
          (\<lambda>m c. Message m = pkt c
                  \<and> Offset m = (if seek_err c then 0 else int (length (sampleFile s))))
          (recs (logged cfg s acc)) acc"
      by (simp add: list_all2_map1 list.rel_refl log_message_def)
    show "\<forall>m \<in> set (recs (logged cfg s acc)). Offset m = int (length (sampleFile s))"
      if "\<forall>c \<in> set (pkts b). \<not> seek_err c"
      using that sub by (auto simp: log_message_def)
    show "\<exists>w. sampleFile (state_of (iteration cfg b s)) = sampleFile s @ w"
      using d(7) by auto
    show "sampleFile (state_of (iteration cfg b s)) = sampleFile s @ IQ b"
      if "acc \<noteq> [] \<and> sampleFilename cfg \<noteq> DevNull \<and> \<not> fatal (iteration cfg b s)"
      using that d(9) by simp
  qed
qed

text \<open>Eight bytes are in the archive: the record has the offset 8, and the window follows them.\<close>

theorem C7_Offset_before_the_write_witness:
  "list_all (\<lambda>c. \<not> seek_err c) (pkts (block_of [heard m42 5]))
   \<and> recs (logFile (state_of (iteration cfg_single (block_of [heard m42 5]) tuned)))
     = [log_message cfg_single tuned (heard m42 5)]
   \<and> Offset (log_message cfg_single tuned (heard m42 5)) = 8
   \<and> length (sampleFile tuned) = 8
   \<and> sampleFilename cfg_single \<noteq> DevNull
   \<and> \<not> fatal (iteration cfg_single (block_of [heard m42 5]) tuned)
   \<and> sampleFile (state_of (iteration cfg_single (block_of [heard m42 5]) tuned))
       = sampleFile tuned @ IQ (block_of [heard m42 5])
   \<and> drop 8 (sampleFile (state_of (iteration cfg_single (block_of [heard m42 5]) tuned)))
       = [1, 2, 3, 4]"
  using C7_Offset_is_what_Seek_answers_before_the_write [of "block_of [heard m42 5]" cfg_single tuned]
  by (simp add: run_defs)

text \<open>
  On a sample file that cannot seek, two blocks with a packet each: the first window is
  written at 0 and the second at 4, and both records have the offset 0.
\<close>

theorem C7_Offset_zero_when_Seek_fails:
  "sampleFile (state_of (loop cfg_filter (tuned\<lparr>sampleFile := []\<rparr>)
                           [block_of [heard_blind m42 5]]))
     = [1, 2, 3, 4]
   \<and> loop cfg_filter (tuned\<lparr>sampleFile := []\<rparr>)
         [block_of [heard_blind m42 5], block_of [heard_blind m42 6]]
     = Continue
         (tuned\<lparr>logFile :=
                  [Rec \<lparr>Time = 5, Offset = 0, Length = 4096, Message = m42\<rparr>,
                   Rec \<lparr>Time = 6, Offset = 0, Length = 4096, Message = m42\<rparr>],
                sampleFile := [1, 2, 3, 4, 1, 2, 3, 4]\<rparr>)"
  by (simp add: run_defs)

section \<open>The line after a record\<close>

text \<open>
  C8. What an iteration sends to the log file is, for a list of records: each record
  followed by a line, when the encoder is the XML encoder; the records alone, with no
  line, when the encoder is any other. The line is decided by the type of the encoder,
  the XML encoder being the one singled out.
\<close>

theorem C8_line_after_a_record_iff_XML_encoder:
  "\<exists>ms. logFile (state_of (iteration cfg b s)) =
          logFile s @ (if encoder cfg = XmlEncoder then concat (map (\<lambda>m. [Rec m, Newline]) ms)
                       else map Rec ms)"
proof -
  obtain acc where a: "block_spec cfg b s acc"
    using iteration_log by blast
  have "logFile (state_of (iteration cfg b s)) =
          logFile s @ (if encoder cfg = XmlEncoder
                       then concat (map (\<lambda>m. [Rec m, Newline]) (map (log_message cfg s) acc))
                       else map Rec (map (log_message cfg s) acc))"
    using block_specD(2) [OF a] logged_encoder [of cfg s acc] by simp
  then show ?thesis ..
qed

theorem C8_line_after_a_record_witness:
  "encoder cfg_xml = XmlEncoder
   \<and> logFile (state_of (iteration cfg_xml (block_of [heard m42 5, heard m42 6]) tuned))
       = logFile tuned
           @ concat (map (\<lambda>m. [Rec m, Newline])
               [log_message cfg_xml tuned (heard m42 5), log_message cfg_xml tuned (heard m42 6)])"
  using C8_line_after_a_record_iff_XML_encoder
    [of cfg_xml "block_of [heard m42 5, heard m42 6]" tuned]
  by (simp add: run_defs)

text \<open>
  The line is a special case of one format. Three encoders that behave alike (each encodes
  the record without error) in the same iteration: the XML encoder gets the line, the
  other two do not, and nothing but the type of the encoder tells them apart.
\<close>

theorem C8_line_by_the_type_of_the_encoder:
  "logFile (state_of (iteration (cfg_single\<lparr>encoder := XmlEncoder\<rparr>)
             (block_of [heard m42 5]) tuned))
     = [Rec (log_message cfg_single tuned (heard m42 5)), Newline]
   \<and> logFile (state_of (iteration (cfg_single\<lparr>encoder := OtherEncoder ''json''\<rparr>)
               (block_of [heard m42 5]) tuned))
     = [Rec (log_message cfg_single tuned (heard m42 5))]
   \<and> logFile (state_of (iteration (cfg_single\<lparr>encoder := OtherEncoder ''csv''\<rparr>)
               (block_of [heard m42 5]) tuned))
     = [Rec (log_message cfg_single tuned (heard m42 5))]"
  by (simp add: run_defs)

section \<open>Blocks and packets without effect\<close>

text \<open>
  C9. A processed block that yields no packet writes no log record and leaves the
  raw-sample archive as long as it was: the iteration leaves the whole state unchanged,
  however it ends, and when the block was read it ends by going on to the next one.
\<close>

theorem C9_block_without_packets:
  "pkts b = [] \<Longrightarrow>
     state_of (iteration cfg b s) = s
     \<and> logFile (state_of (iteration cfg b s)) = logFile s
     \<and> length (sampleFile (state_of (iteration cfg b s))) = length (sampleFile s)
     \<and> (sel b = SelDefault \<and> \<not> read_err b \<longrightarrow> iteration cfg b s = Continue s)"
  by (simp add: iteration_def after_pkts_def split: select.splits)

theorem C9_block_without_packets_witness:
  "pkts (block_of []) = []
   \<and> state_of (iteration cfg_single (block_of []) tuned) = tuned
   \<and> logFile (state_of (iteration cfg_single (block_of []) tuned)) = []
   \<and> length (sampleFile (state_of (iteration cfg_single (block_of []) tuned))) = 8
   \<and> iteration cfg_single (block_of []) tuned = Continue tuned"
  using C9_block_without_packets [of "block_of []" cfg_single tuned]
  by (simp add: block_of_def tuned_def start_def)

text \<open>
  C10. A packet that the filter chain rejects has no effect but on the filters' private
  state: the loop goes on with the packets after it exactly as it would without it, with
  the log file, the identifier set, the archive and \<^verbatim>\<open>pktFound\<close> as they were; and a block
  whose one packet is rejected ends its iteration by going on to the next block, nothing
  archived and nothing returned.
\<close>

theorem C10_rejected_packet_has_no_effect:
  assumes "Match cfg (fc s) (filt s) (meterID s) (pkt c) = (False, fs)"
  shows "range_pkts cfg (c # cs) pktFound s = range_pkts cfg cs pktFound (s\<lparr>filt := fs\<rparr>)
       \<and> logFile (s\<lparr>filt := fs\<rparr>) = logFile s
       \<and> meterID (s\<lparr>filt := fs\<rparr>) = meterID s
       \<and> sampleFile (s\<lparr>filt := fs\<rparr>) = sampleFile s
       \<and> (sel b = SelDefault \<and> \<not> read_err b \<and> pkts b = [c] \<longrightarrow>
            iteration cfg b s = Continue (s\<lparr>filt := fs\<rparr>))"
  using assms by (simp add: range_pkts_rejected iteration_def)

theorem C10_rejected_packet_witness:
  "Match cfg_single (fc tuned) (filt tuned) (meterID tuned) (pkt (heard m43 5))
     = (False, filt tuned)
   \<and> range_pkts cfg_single [heard m43 5, heard m42 6] False tuned
       = range_pkts cfg_single [heard m42 6] False tuned
   \<and> sel (block_of [heard m43 5]) = SelDefault
   \<and> \<not> read_err (block_of [heard m43 5])
   \<and> pkts (block_of [heard m43 5]) = [heard m43 5]
   \<and> iteration cfg_single (block_of [heard m43 5]) tuned = Continue tuned"
  using C10_rejected_packet_has_no_effect
    [of cfg_single tuned "heard m43 5" "filt tuned" "[heard m42 6]" False "block_of [heard m43 5]"]
  by (simp add: run_defs)

end
